theory Spec2Isabelle
  imports Complex_Main
begin

section \<open>The unit converter of the recipe manager\<close>

text \<open>
  This theory embeds \<^verbatim>\<open>src/unit_converter.py\<close> (class \<^verbatim>\<open>UnitConverter\<close>).

  \<^item> What \<^verbatim>\<open>json.load\<close> returns is a JSON value (\<open>json\<close>). A conversion table is a JSON value
    of the expected shape, a mapping from unit names to mappings from unit names to numbers.
    Python dictionaries iterate in insertion order and the search depends on that order, so a
    dictionary is an association list, read with \<open>map_of\<close> and iterated through its keys.
  \<^item> The value to convert is a Python \<^verbatim>\<open>int\<close> or \<^verbatim>\<open>float\<close> (\<open>number\<close>). Floats and the factors of a
    table are reals: every product and quotient below is written in the order in which the
    code computes it, and the rounding of float arithmetic is not modelled. The conversion
    \<^verbatim>\<open>float(value)\<close> of an \<^verbatim>\<open>int\<close> is modelled: it rounds to 53 significant bits and overflows.
  \<^item> The class attributes \<^verbatim>\<open>_conversion_factors\<close> and \<^verbatim>\<open>_default_conversion_file\<close> and the
    one-entry \<^verbatim>\<open>lru_cache\<close> that decorates the loader form the state, passed explicitly.
  \<^item> The file system is a function from paths to what opening and parsing the file gives.
  \<^item> Every exception is a value of the type \<open>error\<close>, returned on the left of a sum.
  \<^item> The nested function \<^verbatim>\<open>find_conversion_path\<close> is modelled twice: as a total recursive function
    (\<open>find_conversion_path\<close>, an interpreter without a recursion limit), and with the number of
    nested calls the interpreter still allows (\<open>find_conversion_path_limited\<close>), where a call
    beyond that number raises \<^verbatim>\<open>RecursionError\<close>.
\<close>

subsection \<open>Tables\<close>

type_synonym unit_name = string
type_synonym table = "(unit_name \<times> (unit_name \<times> real) list) list"
type_synonym path = "(unit_name \<times> unit_name \<times> real) list"

text \<open>\<^verbatim>\<open>a in factors and b in factors[a]\<close>, and then \<^verbatim>\<open>factors[a][b]\<close>.\<close>

definition factor_of :: "table \<Rightarrow> unit_name \<Rightarrow> unit_name \<Rightarrow> real option" where
  "factor_of factors a b =
     (case map_of factors a of None \<Rightarrow> None | Some row \<Rightarrow> map_of row b)"

text \<open>The keys of \<^verbatim>\<open>factors.get(a, {})\<close>, in iteration order.\<close>

definition neighbours :: "table \<Rightarrow> unit_name \<Rightarrow> unit_name list" where
  "neighbours factors a =
     (case map_of factors a of None \<Rightarrow> [] | Some row \<Rightarrow> map fst row)"

text \<open>Every unit that occurs as a target in some row.\<close>

definition all_units :: "table \<Rightarrow> unit_name set" where
  "all_units factors = (\<Union>row \<in> snd ` set factors. fst ` set row)"

text \<open>The directed graph of the table: an edge for every stored factor.\<close>

definition edges :: "table \<Rightarrow> (unit_name \<times> unit_name) set" where
  "edges factors = {(a, b). factor_of factors a b \<noteq> None}"

text \<open>A chain of stored edges from \<open>a\<close> to \<open>b\<close>, each triple carrying the stored factor.\<close>

fun is_path :: "table \<Rightarrow> unit_name \<Rightarrow> path \<Rightarrow> unit_name \<Rightarrow> bool" where
  "is_path factors a [] b = (a = b)"
| "is_path factors a ((x, y, f) # p) b =
     (x = a \<and> factor_of factors x y = Some f \<and> is_path factors y p b)"


subsection \<open>Numbers\<close>

text \<open>The argument \<^verbatim>\<open>value\<close> of \<^verbatim>\<open>convert\<close>: a Python \<^verbatim>\<open>int\<close> (unbounded) or a \<^verbatim>\<open>float\<close>.\<close>

datatype number = PyInt int | PyFloat real

text \<open>The number as it enters a product or a quotient.\<close>

fun num_val :: "number \<Rightarrow> real" where
  "num_val (PyInt n) = of_int n"
| "num_val (PyFloat x) = x"

text \<open>\<^verbatim>\<open>n.bit_length()\<close>: the number of binary digits of a natural number.\<close>

fun bit_length :: "nat \<Rightarrow> nat" where
  "bit_length n = (if n = 0 then 0 else Suc (bit_length (n div 2)))"

declare bit_length.simps [simp del]

text \<open>
  \<open>a\<close> with its \<open>k\<close> lowest bits rounded away, to the nearest multiple of \<open>2 ^ k\<close>, a tie going
  to the multiple whose quotient is even.
\<close>

definition round_half_even :: "nat \<Rightarrow> nat \<Rightarrow> nat" where
  "round_half_even k a =
     (let q = a div 2 ^ k; r = a mod 2 ^ k
      in (if 2 * r > 2 ^ k \<or> (2 * r = 2 ^ k \<and> odd q) then q + 1 else q) * 2 ^ k)"

subsection \<open>Errors\<close>

text \<open>
  The exceptions: the three the module raises itself, with their messages, and the ones the
  interpreter raises on the module's behalf (the messages of those are left out).
\<close>

datatype error =
    FileNotFoundError string
  | ValueError string
  | ZeroDivisionError
  | OverflowError
  | RecursionError
  | TypeError
  | AttributeError

definition quoted :: "string \<Rightarrow> string" where
  "quoted u = [CHR 0x27] @ u @ [CHR 0x27]"

definition no_path_message :: "unit_name \<Rightarrow> unit_name \<Rightarrow> string" where
  "no_path_message from_unit to_unit =
     ''No conversion path found from '' @ quoted from_unit @ '' to '' @ quoted to_unit"

definition not_found_message :: "string \<Rightarrow> string" where
  "not_found_message file_path = ''Conversion file not found: '' @ file_path"

definition invalid_json_message :: "string \<Rightarrow> string" where
  "invalid_json_message file_path = ''Invalid JSON in conversion file: '' @ file_path"

text \<open>
  \<^verbatim>\<open>float(n)\<close> for an \<^verbatim>\<open>int\<close>: the nearest double, ties to even, and \<^verbatim>\<open>OverflowError\<close> when the
  rounded magnitude reaches \<open>2 ^ 1024\<close>. An integer has no more binary digits after rounding
  than 53, so the bits beyond the 53 highest are rounded away.
\<close>

definition float_of_int :: "int \<Rightarrow> error + real" where
  "float_of_int n =
     (let a = nat \<bar>n\<bar>; m = round_half_even (bit_length a - 53) a
      in if 2 ^ 1024 \<le> m then Inl OverflowError
         else Inr (if n < 0 then - real m else real m))"

text \<open>\<^verbatim>\<open>float(value)\<close>: a float is returned as it is.\<close>

fun to_float :: "number \<Rightarrow> error + real" where
  "to_float (PyInt n) = float_of_int n"
| "to_float (PyFloat x) = Inr x"

subsection \<open>The search: \<^verbatim>\<open>find_conversion_path\<close>\<close>

text \<open>Python's truth value of \<^verbatim>\<open>path\<close>: \<^verbatim>\<open>None\<close> and the empty list are false.\<close>

fun truthy :: "path option \<Rightarrow> bool" where
  "truthy None = False"
| "truthy (Some p) = (p \<noteq> [])"

text \<open>
  The nested function of \<^verbatim>\<open>convert\<close>. The set \<^verbatim>\<open>visited\<close> is one mutable object shared by all
  recursive calls, so it is threaded through: each call returns the set as it leaves it.
  \<open>try_intermediates\<close> is the \<^verbatim>\<open>for\<close> loop over the keys of the current unit's row.
\<close>

function find_conversion_path ::
    "table \<Rightarrow> unit_name \<Rightarrow> unit_name \<Rightarrow> unit_name set \<Rightarrow> path option \<times> unit_name set"
  and try_intermediates ::
    "table \<Rightarrow> unit_name \<Rightarrow> unit_name \<Rightarrow> unit_name list \<Rightarrow> unit_name set
       \<Rightarrow> path option \<times> unit_name set"
where
  "find_conversion_path factors current_unit target_unit visited =
     (case factor_of factors current_unit target_unit of
        Some f \<Rightarrow> (Some [(current_unit, target_unit, f)], insert current_unit visited)
      | None \<Rightarrow> try_intermediates factors current_unit target_unit
                  (neighbours factors current_unit) (insert current_unit visited))"
| "try_intermediates factors current_unit target_unit [] visited = (None, visited)"
| "try_intermediates factors current_unit target_unit (intermediate_unit # rest) visited =
     (if intermediate_unit \<notin> visited then
        (case find_conversion_path factors intermediate_unit target_unit visited of
           (p, visited') \<Rightarrow>
             if truthy p then
               (Some ((current_unit, intermediate_unit,
                       the (factor_of factors current_unit intermediate_unit)) # the p),
                visited')
             else try_intermediates factors current_unit target_unit rest visited')
      else try_intermediates factors current_unit target_unit rest visited)"
  by pat_completeness auto

lemma neighbours_all_units: "set (neighbours factors a) \<subseteq> all_units factors"
proof
  fix b assume b: "b \<in> set (neighbours factors a)"
  then obtain row where row: "map_of factors a = Some row" "b \<in> fst ` set row"
    by (cases "map_of factors a") (auto simp: neighbours_def)
  from row(1) have "(a, row) \<in> set factors" by (rule map_of_SomeD)
  then have "row \<in> snd ` set factors" by force
  with row(2) show "b \<in> all_units factors" unfolding all_units_def by blast
qed

lemma finite_all_units: "finite (all_units factors)"
  by (simp add: all_units_def)

lemma visited_grows_dom:
  "find_conversion_path_try_intermediates_dom (Inl (factors, c, t, V)) \<Longrightarrow>
     V \<subseteq> snd (find_conversion_path factors c t V)"
  "find_conversion_path_try_intermediates_dom (Inr (factors, c, t, ns, V)) \<Longrightarrow>
     V \<subseteq> snd (try_intermediates factors c t ns V)"
proof (induction rule: find_conversion_path_try_intermediates.pinduct)
  case (1 factors current_unit target_unit visited)
  then show ?case
    by (auto simp: find_conversion_path.psimps split: option.splits)
next
  case (2 factors current_unit target_unit visited)
  then show ?case by (simp add: try_intermediates.psimps)
next
  case (3 factors current_unit target_unit intermediate_unit rest visited)
  then show ?case
    by (fastforce simp: try_intermediates.psimps split: prod.splits if_splits)
qed

text \<open>
  The search terminates on every table: a recursive call is made only on a unit of the table
  that is not yet visited, and the visited set never shrinks.
\<close>

termination find_conversion_path
proof (relation "inv_image (less_than <*lex*> less_than <*lex*> less_than)
    (\<lambda>x. case x of
       Inl (factors, c, t, V) \<Rightarrow> (card (all_units factors - insert c V), 1::nat, 0::nat)
     | Inr (factors, c, t, ns, V) \<Rightarrow>
         (card ((all_units factors \<union> set ns) - V), 0, length ns))",
    goal_cases)
  case 1
  then show ?case by (intro wf_inv_image wf_lex_prod wf_less_than)
next
  case (2 factors current_unit target_unit visited)
  have "(all_units factors \<union> set (neighbours factors current_unit)) = all_units factors"
    using neighbours_all_units by blast
  then show ?case by simp
next
  case (3 factors current_unit target_unit intermediate_unit rest visited)
  have "all_units factors - insert intermediate_unit visited
        \<subset> (all_units factors \<union> set (intermediate_unit # rest)) - visited"
    using 3 by auto
  then have "card (all_units factors - insert intermediate_unit visited)
        < card ((all_units factors \<union> set (intermediate_unit # rest)) - visited)"
    by (intro psubset_card_mono) (auto simp: finite_all_units)
  then show ?case by simp
next
  case (4 factors current_unit target_unit intermediate_unit rest visited x y)
  have "visited \<subseteq> y"
    using visited_grows_dom(1)[OF 4(4)] 4(2) by (metis snd_conv)
  then have "(all_units factors \<union> set rest) - y
        \<subseteq> (all_units factors \<union> set (intermediate_unit # rest)) - visited"
    by auto
  then have "card ((all_units factors \<union> set rest) - y)
        \<le> card ((all_units factors \<union> set (intermediate_unit # rest)) - visited)"
    by (intro card_mono) (auto simp: finite_all_units)
  then show ?case by auto
next
  case (5 factors current_unit target_unit intermediate_unit rest visited)
  have "card ((all_units factors \<union> set rest) - visited)
        \<le> card ((all_units factors \<union> set (intermediate_unit # rest)) - visited)"
    by (intro card_mono) (auto simp: finite_all_units)
  then show ?case by auto
qed

lemma visited_grows:
  "V \<subseteq> snd (find_conversion_path t c g V)"
  "V \<subseteq> snd (try_intermediates t c g ns V)"
proof (induction t c g V and t c g ns V rule: find_conversion_path_try_intermediates.induct)
  case (1 factors current_unit target_unit visited)
  then show ?case by (auto split: option.splits)
next
  case (2 factors current_unit target_unit visited)
  then show ?case by simp
next
  case (3 factors current_unit target_unit intermediate_unit rest visited)
  then show ?case by (fastforce split: prod.splits if_splits)
qed

subsection \<open>The log of the calls\<close>

text \<open>
  \<open>find_calls\<close> follows the recursion of \<open>find_conversion_path\<close> step by step and lists, in
  order, the units on which the body of \<^verbatim>\<open>find_conversion_path\<close> is entered: the current unit
  first, then the calls made by the loop, each with the visited set the search has at that
  moment. It is not part of the program; it makes "how often is a unit expanded" a statement.
\<close>

function find_calls ::
    "table \<Rightarrow> unit_name \<Rightarrow> unit_name \<Rightarrow> unit_name set \<Rightarrow> unit_name list"
  and try_calls ::
    "table \<Rightarrow> unit_name \<Rightarrow> unit_name \<Rightarrow> unit_name list \<Rightarrow> unit_name set \<Rightarrow> unit_name list"
where
  "find_calls factors current_unit target_unit visited =
     current_unit #
       (case factor_of factors current_unit target_unit of
          Some f \<Rightarrow> []
        | None \<Rightarrow> try_calls factors current_unit target_unit
                    (neighbours factors current_unit) (insert current_unit visited))"
| "try_calls factors current_unit target_unit [] visited = []"
| "try_calls factors current_unit target_unit (intermediate_unit # rest) visited =
     (if intermediate_unit \<notin> visited then
        (case find_conversion_path factors intermediate_unit target_unit visited of
           (p, visited') \<Rightarrow>
             find_calls factors intermediate_unit target_unit visited
             @ (if truthy p then []
                else try_calls factors current_unit target_unit rest visited'))
      else try_calls factors current_unit target_unit rest visited)"
  by pat_completeness auto

termination find_calls
proof (relation "inv_image (less_than <*lex*> less_than <*lex*> less_than)
    (\<lambda>x. case x of
       Inl (factors, c, t, V) \<Rightarrow> (card (all_units factors - insert c V), 1::nat, 0::nat)
     | Inr (factors, c, t, ns, V) \<Rightarrow>
         (card ((all_units factors \<union> set ns) - V), 0, length ns))",
    goal_cases)
  case 1
  then show ?case by (intro wf_inv_image wf_lex_prod wf_less_than)
next
  case (2 factors current_unit target_unit visited)
  have "(all_units factors \<union> set (neighbours factors current_unit)) = all_units factors"
    using neighbours_all_units by blast
  then show ?case by simp
next
  case (3 factors current_unit target_unit intermediate_unit rest visited x y)
  have "all_units factors - insert intermediate_unit visited
        \<subset> (all_units factors \<union> set (intermediate_unit # rest)) - visited"
    using 3 by auto
  then have "card (all_units factors - insert intermediate_unit visited)
        < card ((all_units factors \<union> set (intermediate_unit # rest)) - visited)"
    by (intro psubset_card_mono) (auto simp: finite_all_units)
  then show ?case by simp
next
  case (4 factors current_unit target_unit intermediate_unit rest visited x y)
  have "visited \<subseteq> y"
    using visited_grows(1)[of visited factors intermediate_unit target_unit] 4(2)
    by (metis snd_conv)
  then have "(all_units factors \<union> set rest) - y
        \<subseteq> (all_units factors \<union> set (intermediate_unit # rest)) - visited"
    by auto
  then have "card ((all_units factors \<union> set rest) - y)
        \<le> card ((all_units factors \<union> set (intermediate_unit # rest)) - visited)"
    by (intro card_mono) (auto simp: finite_all_units)
  then show ?case by auto
next
  case (5 factors current_unit target_unit intermediate_unit rest visited)
  have "card ((all_units factors \<union> set rest) - visited)
        \<le> card ((all_units factors \<union> set (intermediate_unit # rest)) - visited)"
    by (intro card_mono) (auto simp: finite_all_units)
  then show ?case by auto
qed


subsection \<open>The search under a recursion limit\<close>

text \<open>
  The same function run by an interpreter that allows \<open>frames\<close> more nested calls: every call
  of \<^verbatim>\<open>find_conversion_path\<close> takes one frame, the loop runs inside the frame of its call, and
  a call with no frame left raises \<^verbatim>\<open>RecursionError\<close>, which no caller catches.
\<close>

fun find_conversion_path_limited ::
    "nat \<Rightarrow> table \<Rightarrow> unit_name \<Rightarrow> unit_name \<Rightarrow> unit_name set
       \<Rightarrow> error + (path option \<times> unit_name set)"
  and try_intermediates_limited ::
    "nat \<Rightarrow> table \<Rightarrow> unit_name \<Rightarrow> unit_name \<Rightarrow> unit_name list \<Rightarrow> unit_name set
       \<Rightarrow> error + (path option \<times> unit_name set)"
where
  "find_conversion_path_limited 0 factors current_unit target_unit visited = Inl RecursionError"
| "find_conversion_path_limited (Suc frames) factors current_unit target_unit visited =
     (case factor_of factors current_unit target_unit of
        Some f \<Rightarrow> Inr (Some [(current_unit, target_unit, f)], insert current_unit visited)
      | None \<Rightarrow> try_intermediates_limited frames factors current_unit target_unit
                  (neighbours factors current_unit) (insert current_unit visited))"
| "try_intermediates_limited frames factors current_unit target_unit [] visited =
     Inr (None, visited)"
| "try_intermediates_limited frames factors current_unit target_unit
       (intermediate_unit # rest) visited =
     (if intermediate_unit \<notin> visited then
        (case find_conversion_path_limited frames factors intermediate_unit target_unit
                visited of
           Inl e \<Rightarrow> Inl e
         | Inr (p, visited') \<Rightarrow>
             if truthy p then
               Inr (Some ((current_unit, intermediate_unit,
                           the (factor_of factors current_unit intermediate_unit)) # the p),
                    visited')
             else try_intermediates_limited frames factors current_unit target_unit rest
                    visited')
      else try_intermediates_limited frames factors current_unit target_unit rest visited)"

subsection \<open>JSON values\<close>

text \<open>
  What \<^verbatim>\<open>json.load\<close> returns: \<^verbatim>\<open>None\<close>, a boolean, a number, a string, a list or a dictionary.
\<close>

datatype json =
    JNull
  | JBool bool
  | JNum real
  | JStr string
  | JArr "json list"
  | JObj "(string \<times> json) list"

text \<open>A table as the JSON value it is parsed from.\<close>

definition json_row :: "(unit_name \<times> real) list \<Rightarrow> json" where
  "json_row row = JObj (map (\<lambda>(w, f). (w, JNum f)) row)"

definition json_of :: "table \<Rightarrow> json" where
  "json_of t = JObj (map (\<lambda>(u, row). (u, json_row row)) t)"

text \<open>
  The table a JSON value is, when it has the expected shape: a mapping whose values are
  mappings whose values are numbers.
\<close>

fun number_of :: "json \<Rightarrow> real option" where
  "number_of (JNum f) = Some f"
| "number_of _ = None"

fun row_of :: "json \<Rightarrow> (unit_name \<times> real) list option" where
  "row_of (JObj kv) = those (map (\<lambda>(w, x). map_option (Pair w) (number_of x)) kv)"
| "row_of _ = None"

fun table_of :: "json \<Rightarrow> table option" where
  "table_of (JObj kv) = those (map (\<lambda>(u, x). map_option (Pair u) (row_of x)) kv)"
| "table_of _ = None"

text \<open>\<^verbatim>\<open>u in s\<close> for two strings: \<open>u\<close> occurs in \<open>s\<close> as a contiguous piece.\<close>

fun starts_with :: "string \<Rightarrow> string \<Rightarrow> bool" where
  "starts_with s [] = True"
| "starts_with [] (c # u) = False"
| "starts_with (x # s) (c # u) = (x = c \<and> starts_with s u)"

fun occurs_in :: "string \<Rightarrow> string \<Rightarrow> bool" where
  "occurs_in u [] = (u = [])"
| "occurs_in u (x # s) = (starts_with (x # s) u \<or> occurs_in u s)"

text \<open>
  \<^verbatim>\<open>u in x\<close> for a string \<open>u\<close> and a JSON value \<open>x\<close>: a key of a dictionary, an element of a
  list, a piece of a string; \<^verbatim>\<open>TypeError\<close> on anything else.
\<close>

fun py_in :: "string \<Rightarrow> json \<Rightarrow> error + bool" where
  "py_in u (JObj kv) = Inr (u \<in> fst ` set kv)"
| "py_in u (JArr xs) = Inr (JStr u \<in> set xs)"
| "py_in u (JStr s) = Inr (occurs_in u s)"
| "py_in u _ = Inl TypeError"

subsection \<open>The state and the loader\<close>

text \<open>
  What \<^verbatim>\<open>open\<close> followed by \<^verbatim>\<open>json.load\<close> gives for a path: \<^verbatim>\<open>FileNotFoundError\<close>,
  \<^verbatim>\<open>json.JSONDecodeError\<close>, or the parsed value, of whatever shape: the code does not check it.
\<close>

datatype source = Missing | Malformed | Parsed json

type_synonym file_system = "string \<Rightarrow> source"

text \<open>
  \<open>conversion_factors\<close> is \<^verbatim>\<open>cls._conversion_factors\<close>, with \<open>None\<close> for Python's \<^verbatim>\<open>None\<close>;
  \<open>default_conversion_file\<close> is \<^verbatim>\<open>cls._default_conversion_file\<close>, and \<open>lru\<close> is the single entry
  of \<^verbatim>\<open>lru_cache(maxsize=1)\<close>: the argument of the last call that returned, with its result.
\<close>

record converter_state =
  conversion_factors :: "json option"
  default_conversion_file :: string
  lru :: "(string option \<times> json) option"

definition initial_state :: "string \<Rightarrow> converter_state" where
  "initial_state default_path =
     \<lparr>conversion_factors = None, default_conversion_file = default_path, lru = None\<rparr>"

text \<open>
  The body of \<^verbatim>\<open>_get_conversion_factors\<close>, lines 28 to 41. The attribute is assigned whatever
  was parsed; a file that holds \<^verbatim>\<open>null\<close> parses to \<^verbatim>\<open>None\<close>, which leaves the attribute \<^verbatim>\<open>None\<close>.
\<close>

definition get_conversion_factors_body ::
    "file_system \<Rightarrow> string option \<Rightarrow> converter_state \<Rightarrow> (error + json) \<times> converter_state"
where
  "get_conversion_factors_body fs file_path s =
     (case conversion_factors s of
        Some cached \<Rightarrow> (Inr cached, s)
      | None \<Rightarrow>
          (let p = (case file_path of None \<Rightarrow> default_conversion_file s | Some q \<Rightarrow> q) in
           case fs p of
             Missing \<Rightarrow> (Inl (FileNotFoundError (not_found_message p)), s)
           | Malformed \<Rightarrow> (Inl (ValueError (invalid_json_message p)), s)
           | Parsed j \<Rightarrow>
               (Inr j, s\<lparr>conversion_factors := (if j = JNull then None else Some j)\<rparr>)))"

text \<open>
  The decorated method: a call whose argument is the key of the cache entry returns the entry
  without running the body; any other call runs the body and, when the body returns, replaces
  the entry. An exception is not cached.
\<close>

definition get_conversion_factors ::
    "file_system \<Rightarrow> string option \<Rightarrow> converter_state \<Rightarrow> (error + json) \<times> converter_state"
where
  "get_conversion_factors fs file_path s =
     (case (case lru s of
              None \<Rightarrow> None
            | Some (k, j) \<Rightarrow> if k = file_path then Some j else None) of
        Some hit \<Rightarrow> (Inr hit, s)
      | None \<Rightarrow>
          (case get_conversion_factors_body fs file_path s of
             (Inl e, s') \<Rightarrow> (Inl e, s')
           | (Inr j, s') \<Rightarrow> (Inr j, s'\<lparr>lru := Some (file_path, j)\<rparr>)))"

definition set_conversion_file ::
    "file_system \<Rightarrow> string \<Rightarrow> converter_state \<Rightarrow> (error + unit) \<times> converter_state"
where
  "set_conversion_file fs file_path s =
     (let s1 = s\<lparr>lru := None\<rparr>;
          s2 = s1\<lparr>conversion_factors := None\<rparr>
      in case get_conversion_factors fs (Some file_path) s2 of
           (Inl e, s3) \<Rightarrow> (Inl e, s3)
         | (Inr j, s3) \<Rightarrow> (Inr (), s3\<lparr>default_conversion_file := file_path\<rparr>))"

subsection \<open>The public operations\<close>

text \<open>
  Lines 80 to 119 of \<^verbatim>\<open>convert\<close> on a table: what it does once the loader returned a value of
  the expected shape.
\<close>

definition convert_on :: "table \<Rightarrow> number \<Rightarrow> unit_name \<Rightarrow> unit_name \<Rightarrow> error + real" where
  "convert_on factors v from_unit to_unit =
     (if from_unit = to_unit then to_float v
      else case factor_of factors from_unit to_unit of
        Some f \<Rightarrow> Inr (num_val v * f)
      | None \<Rightarrow>
          (case factor_of factors to_unit from_unit of
             Some f \<Rightarrow> if f = 0 then Inl ZeroDivisionError else Inr (num_val v / f)
           | None \<Rightarrow>
               (case find_conversion_path factors from_unit to_unit {} of
                  (p, visited) \<Rightarrow>
                    if truthy p
                    then Inr (foldl (\<lambda>result (start_unit, end_unit, factor). result * factor)
                                (num_val v) (the p))
                    else Inl (ValueError (no_path_message from_unit to_unit)))))"

text \<open>The same lines run by an interpreter that allows \<open>frames\<close> nested calls of the search.\<close>

definition convert_on_limited ::
    "nat \<Rightarrow> table \<Rightarrow> number \<Rightarrow> unit_name \<Rightarrow> unit_name \<Rightarrow> error + real"
where
  "convert_on_limited frames factors v from_unit to_unit =
     (if from_unit = to_unit then to_float v
      else case factor_of factors from_unit to_unit of
        Some f \<Rightarrow> Inr (num_val v * f)
      | None \<Rightarrow>
          (case factor_of factors to_unit from_unit of
             Some f \<Rightarrow> if f = 0 then Inl ZeroDivisionError else Inr (num_val v / f)
           | None \<Rightarrow>
               (case find_conversion_path_limited frames factors from_unit to_unit {} of
                  Inl e \<Rightarrow> Inl e
                | Inr (p, visited) \<Rightarrow>
                    if truthy p
                    then Inr (foldl (\<lambda>result (start_unit, end_unit, factor). result * factor)
                                (num_val v) (the p))
                    else Inl (ValueError (no_path_message from_unit to_unit)))))"

text \<open>
  The same lines on whatever the loader returned. Equal units are answered before the value
  is looked at. A value that is no dictionary fails at the first use that its type does not
  support: \<^verbatim>\<open>from_unit in factors\<close> raises \<^verbatim>\<open>TypeError\<close> on \<^verbatim>\<open>None\<close>, a boolean or a number; on a
  list or a string that contains one of the two units, \<^verbatim>\<open>factors[...]\<close> raises \<^verbatim>\<open>TypeError\<close>,
  and otherwise the search reaches \<^verbatim>\<open>factors.get\<close>, which raises \<^verbatim>\<open>AttributeError\<close>. What the
  interpreter does on a dictionary that is not a table (a row that is no dictionary, a factor
  that is no number) is not fixed here: it is the parameter \<open>ill_shaped\<close>, and everything
  below holds for every such parameter.
\<close>

definition convert_json ::
    "(json \<Rightarrow> number \<Rightarrow> unit_name \<Rightarrow> unit_name \<Rightarrow> error + real)
       \<Rightarrow> json \<Rightarrow> number \<Rightarrow> unit_name \<Rightarrow> unit_name \<Rightarrow> error + real"
where
  "convert_json ill_shaped factors v from_unit to_unit =
     (if from_unit = to_unit then to_float v
      else case factors of
        JObj kv \<Rightarrow>
          (case table_of factors of
             Some t \<Rightarrow> convert_on t v from_unit to_unit
           | None \<Rightarrow> ill_shaped factors v from_unit to_unit)
      | JArr xs \<Rightarrow>
          if JStr from_unit \<in> set xs \<or> JStr to_unit \<in> set xs
          then Inl TypeError else Inl AttributeError
      | JStr s \<Rightarrow>
          if occurs_in from_unit s \<or> occurs_in to_unit s
          then Inl TypeError else Inl AttributeError
      | _ \<Rightarrow> Inl TypeError)"

definition convert ::
    "(json \<Rightarrow> number \<Rightarrow> unit_name \<Rightarrow> unit_name \<Rightarrow> error + real)
       \<Rightarrow> file_system \<Rightarrow> number \<Rightarrow> unit_name \<Rightarrow> unit_name \<Rightarrow> string option
       \<Rightarrow> converter_state \<Rightarrow> (error + real) \<times> converter_state"
where
  "convert ill_shaped fs v from_unit to_unit conversion_file s =
     (case get_conversion_factors fs conversion_file s of
        (Inl e, s') \<Rightarrow> (Inl e, s')
      | (Inr factors, s') \<Rightarrow> (convert_json ill_shaped factors v from_unit to_unit, s'))"

text \<open>\<^verbatim>\<open>list(factors.keys())\<close>: only a dictionary has \<^verbatim>\<open>keys\<close>.\<close>

fun available_units_of :: "json \<Rightarrow> error + unit_name list" where
  "available_units_of (JObj kv) = Inr (map fst kv)"
| "available_units_of _ = Inl AttributeError"

definition get_available_units ::
    "file_system \<Rightarrow> string option \<Rightarrow> converter_state
       \<Rightarrow> (error + unit_name list) \<times> converter_state"
where
  "get_available_units fs conversion_file s =
     (case get_conversion_factors fs conversion_file s of
        (Inl e, s') \<Rightarrow> (Inl e, s')
      | (Inr factors, s') \<Rightarrow> (available_units_of factors, s'))"

text \<open>
  \<^verbatim>\<open>get_compatible_units\<close> on a table. The result is \<^verbatim>\<open>list(compatible)\<close> of a Python set, whose
  order is unspecified: a set.
\<close>

definition compatible_on :: "table \<Rightarrow> unit_name \<Rightarrow> unit_name set" where
  "compatible_on factors u =
     set (neighbours factors u)
     \<union> {other. \<exists>conversions. (other, conversions) \<in> set factors \<and> u \<in> fst ` set conversions}"

text \<open>
  Lines 148 to 159 on whatever the loader returned: the loop over \<^verbatim>\<open>factors.items()\<close>, and
  before it the keys of the row of the unit.
\<close>

fun add_sources :: "unit_name \<Rightarrow> (string \<times> json) list \<Rightarrow> unit_name set \<Rightarrow> error + unit_name set" where
  "add_sources u [] compatible = Inr compatible"
| "add_sources u ((other_unit, conversions) # rest) compatible =
     (case py_in u conversions of
        Inl e \<Rightarrow> Inl e
      | Inr present \<Rightarrow>
          add_sources u rest (if present then insert other_unit compatible else compatible))"

definition compatible_units_of :: "json \<Rightarrow> unit_name \<Rightarrow> error + unit_name set" where
  "compatible_units_of factors u =
     (case py_in u factors of
        Inl e \<Rightarrow> Inl e
      | Inr present \<Rightarrow>
          (case factors of
             JObj kv \<Rightarrow>
               (if present then
                  (case map_of kv u of
                     Some (JObj row) \<Rightarrow> add_sources u kv (set (map fst row))
                   | _ \<Rightarrow> Inl AttributeError)
                else add_sources u kv {})
           | _ \<Rightarrow> if present then Inl TypeError else Inl AttributeError))"

definition get_compatible_units ::
    "file_system \<Rightarrow> unit_name \<Rightarrow> string option \<Rightarrow> converter_state
       \<Rightarrow> (error + unit_name set) \<times> converter_state"
where
  "get_compatible_units fs u conversion_file s =
     (case get_conversion_factors fs conversion_file s of
        (Inl e, s') \<Rightarrow> (Inl e, s')
      | (Inr factors, s') \<Rightarrow> (compatible_units_of factors u, s'))"

text \<open>
  The cache entry of \<^verbatim>\<open>lru_cache\<close> never disagrees with the class attribute: a value the
  decorator holds is the value the attribute holds, where the attribute is \<^verbatim>\<open>None\<close> when that
  value is \<^verbatim>\<open>None\<close>.
\<close>

definition cache_consistent :: "converter_state \<Rightarrow> bool" where
  "cache_consistent s =
     (conversion_factors s \<noteq> Some JNull
      \<and> (case lru s of
            None \<Rightarrow> True
          | Some (k, j) \<Rightarrow> conversion_factors s = (if j = JNull then None else Some j)))"

subsection \<open>Concrete file systems, states and tables\<close>

text \<open>
  A file system with no file, a file system with one parsable file, the state after a first
  load of a table through the default path, and two small tables (the second is the table of
  the specification's scenario).
\<close>

definition no_files :: file_system where
  "no_files p = Missing"

definition one_file :: "string \<Rightarrow> json \<Rightarrow> file_system" where
  "one_file name j p = (if p = name then Parsed j else Missing)"

definition loaded_state :: "string \<Rightarrow> table \<Rightarrow> converter_state" where
  "loaded_state default_path t =
     \<lparr>conversion_factors = Some (json_of t), default_conversion_file = default_path,
      lru = Some (None, json_of t)\<rparr>"

definition kitchen_table :: table where
  "kitchen_table = [(''cup'', [(''ml'', 236.59), (''tbsp'', 16)]), (''tbsp'', [(''tsp'', 3)])]"

definition weight_table :: table where
  "weight_table = [(''lb'', [(''oz'', 16)]), (''oz'', [(''g'', 28.35)])]"

text \<open>
  Two units that share a target and nothing else, and a table with a self-loop.
\<close>

definition fan_in_table :: table where
  "fan_in_table = [(''a'', [(''x'', 2)]), (''b'', [(''x'', 3)])]"

definition loop_table :: table where
  "loop_table = [(''a'', [(''a'', 2)])]"


definition cycle_table :: table where
  "cycle_table = [(''a'', [(''b'', 2)]), (''b'', [(''a'', 0.5)])]"

text \<open>
  The units \<open>u\<close>, \<open>uu\<close>, \<open>uuu\<close>, ... and the table in which each of the first \<open>n\<close> of them
  converts to the next and the last one back to the first: one cycle through \<open>n + 1\<close> units.
\<close>

definition unit_no :: "nat \<Rightarrow> unit_name" where
  "unit_no i = replicate (Suc i) CHR ''u''"

definition ring_table :: "nat \<Rightarrow> table" where
  "ring_table n =
     map (\<lambda>i. (unit_no i, [(unit_no (Suc i), 1)])) [0..<n] @ [(unit_no n, [(unit_no 0, 1)])]"

text \<open>An interpreter for ill-shaped dictionaries, for the concrete statements: any will do.\<close>

definition always_type_error :: "json \<Rightarrow> number \<Rightarrow> unit_name \<Rightarrow> unit_name \<Rightarrow> error + real" where
  "always_type_error factors v from_unit to_unit = Inl TypeError"

text \<open>A file that is valid JSON and holds a list.\<close>

definition list_file :: json where
  "list_file = JArr [JNum 1, JNum 2]"

section \<open>Tables as JSON values, and the conversion to a float\<close>

text \<open>
  On a JSON value that is a table, the operations on JSON values are the operations on
  tables.
\<close>

lemma row_of_json_row: "row_of (json_row row) = Some row"
  unfolding json_row_def by (induction row) (auto split: prod.splits)

lemma py_in_json_row: "py_in u (json_row row) = Inr (u \<in> fst ` set row)"
  unfolding json_row_def by (simp add: image_image case_prod_unfold)

lemma keys_json_row: "available_units_of (json_row row) = Inr (map fst row)"
  unfolding json_row_def by (simp add: comp_def case_prod_unfold)

lemma table_of_json_of: "table_of (json_of t) = Some t"
  unfolding json_of_def
  by (induction t) (auto simp: row_of_json_row split: prod.splits)

lemma json_of_not_null: "json_of t \<noteq> JNull"
  by (simp add: json_of_def)

lemma convert_json_table: "convert_json ill_shaped (json_of t) v a b = convert_on t v a b"
proof -
  obtain kv where kv: "json_of t = JObj kv" by (simp add: json_of_def)
  show ?thesis
    using table_of_json_of[of t] unfolding convert_json_def kv
    by (simp add: convert_on_def)
qed

lemma available_units_of_table: "available_units_of (json_of t) = Inr (map fst t)"
  by (simp add: json_of_def comp_def case_prod_unfold)

lemma map_of_json_of:
  "map_of (map (\<lambda>(u, row). (u, json_row row)) t) u = map_option json_row (map_of t u)"
  by (induction t) auto

lemma keys_json_of: "fst ` set (map (\<lambda>(u, row). (u, json_row row)) t) = fst ` set t"
  by (induction t) auto

lemma add_sources_table:
  "add_sources u (map (\<lambda>(u, row). (u, json_row row)) t) acc
     = Inr (acc \<union> {other. \<exists>conversions. (other, conversions) \<in> set t \<and> u \<in> fst ` set conversions})"
proof (induction t arbitrary: acc)
  case Nil
  then show ?case by simp
next
  case (Cons e t)
  obtain other conv where e: "e = (other, conv)" by (cases e)
  let ?S = "{other. \<exists>conversions. (other, conversions) \<in> set t \<and> u \<in> fst ` set conversions}"
  have split: "{o'. \<exists>conversions. (o', conversions) \<in> set (e # t) \<and> u \<in> fst ` set conversions}
      = (if u \<in> fst ` set conv then insert other ?S else ?S)"
    unfolding e by auto
  have "add_sources u (map (\<lambda>(u, row). (u, json_row row)) (e # t)) acc
      = add_sources u (map (\<lambda>(u, row). (u, json_row row)) t)
          (if u \<in> fst ` set conv then insert other acc else acc)"
    unfolding e by (simp add: py_in_json_row)
  also have "\<dots> = Inr ((if u \<in> fst ` set conv then insert other acc else acc) \<union> ?S)"
    by (rule Cons.IH)
  finally show ?case unfolding split by auto
qed

lemma compatible_units_of_table:
  "compatible_units_of (json_of t) u = Inr (compatible_on t u)"
proof (cases "map_of t u")
  case None
  then have "u \<notin> fst ` set t" by (simp add: map_of_eq_None_iff)
  then show ?thesis
    using None unfolding compatible_units_of_def json_of_def
    by (simp add: keys_json_of add_sources_table compatible_on_def neighbours_def
          del: set_map)
next
  case (Some row)
  then have "u \<in> fst ` set t" by (metis map_of_eq_None_iff option.distinct(1))
  moreover have "map_of (map (\<lambda>(u, row). (u, json_row row)) t) u = Some (json_row row)"
    using Some by (simp add: map_of_json_of)
  moreover have "json_row row = JObj (map (\<lambda>(w, f). (w, JNum f)) row)"
    by (simp add: json_row_def)
  moreover have "set (map fst (map (\<lambda>(w, f). (w, JNum f)) row)) = set (map fst row)"
    by force
  ultimately show ?thesis
    using Some unfolding compatible_units_of_def json_of_def
    by (simp add: keys_json_of add_sources_table compatible_on_def neighbours_def
          del: set_map)
qed

text \<open>
  \<^verbatim>\<open>float(n)\<close> is exact up to \<open>2 ^ 53\<close> in magnitude; beyond, it rounds (\<open>2 ^ 53 + 1\<close> becomes
  \<open>2 ^ 53\<close>), and it overflows at \<open>2 ^ 1024\<close>.
\<close>

lemma bit_length_bound: "n < 2 ^ k \<Longrightarrow> bit_length n \<le> k"
proof (induction k arbitrary: n)
  case 0
  then show ?case by (simp add: bit_length.simps)
next
  case (Suc k)
  have "n div 2 < 2 ^ k" using Suc.prems by auto
  then have "bit_length (n div 2) \<le> k" by (rule Suc.IH)
  then show ?case by (subst bit_length.simps) simp
qed

lemma bit_length_power: "bit_length (2 ^ k) = Suc k"
proof (induction k)
  case 0
  then show ?case by (simp add: bit_length.simps)
next
  case (Suc k)
  have "bit_length (2 ^ Suc k) = Suc (bit_length (2 ^ Suc k div 2))"
    by (subst bit_length.simps) simp
  then show ?case using Suc by simp
qed

lemma round_half_even_0: "round_half_even 0 a = a"
  by (simp add: round_half_even_def)

lemma small_below_overflow: "a \<le> 2 ^ 53 \<Longrightarrow> \<not> (2::nat) ^ 1024 \<le> a"
proof -
  assume "a \<le> 2 ^ 53"
  moreover have "(2::nat) ^ 53 < 2 ^ 1024" by (rule power_strict_increasing) simp_all
  ultimately show ?thesis by linarith
qed

lemma float_of_int_exact:
  assumes "\<bar>n\<bar> \<le> 2 ^ 53"
  shows "float_of_int n = Inr (of_int n)"
proof -
  define a where "a = nat \<bar>n\<bar>"
  have a_le: "a \<le> 2 ^ 53" using assms unfolding a_def by (simp add: nat_le_iff)
  have m: "round_half_even (bit_length a - 53) a = a"
  proof (cases "a = 2 ^ 53")
    case True
    have "bit_length a - 53 = 1" unfolding True bit_length_power by simp
    moreover have "round_half_even 1 (2 ^ 53) = 2 ^ 53"
      by (simp add: round_half_even_def Let_def)
    ultimately show ?thesis using True by simp
  next
    case False
    then have "a < 2 ^ 53" using a_le by simp
    then have "bit_length a - 53 = 0" using bit_length_bound[of a 53] by simp
    then show ?thesis by (simp add: round_half_even_0)
  qed
  have val: "(if n < 0 then - real a else real a) = of_int n"
    unfolding a_def by simp
  have "float_of_int n
      = (if 2 ^ 1024 \<le> a then Inl OverflowError
         else Inr (if n < 0 then - real a else real a))"
    unfolding float_of_int_def Let_def a_def[symmetric] m ..
  also have "\<dots> = Inr (if n < 0 then - real a else real a)"
    using small_below_overflow[OF a_le] by (rule if_not_P)
  finally show ?thesis unfolding val .
qed

lemma float_of_int_ties_to_even: "float_of_int 9007199254740993 = Inr 9007199254740992"
proof -
  have b: "bit_length 9007199254740993 = 54" by (simp add: bit_length.simps)
  have r: "round_half_even 1 9007199254740993 = 9007199254740992"
    by (simp add: round_half_even_def Let_def)
  have c: "\<not> (2::nat) ^ 1024 \<le> 9007199254740992" by simp
  show ?thesis unfolding float_of_int_def Let_def using b r c by simp
qed

lemma float_of_int_overflow: "float_of_int (2 ^ 1024) = Inl OverflowError"
proof -
  have a: "nat \<bar>(2::int) ^ 1024\<bar> = 2 ^ 1024"
    by (simp add: nat_power_eq)
  have k: "bit_length (2 ^ 1024) - 53 = 972" unfolding bit_length_power by simp
  have q: "(2::nat) ^ 1024 div 2 ^ 972 = 2 ^ 52"
    by (simp add: power_diff[symmetric])
  have r: "(2::nat) ^ 1024 mod 2 ^ 972 = 0"
    by (simp add: le_imp_power_dvd)
  have e: "even ((2::nat) ^ 52)" by simp
  have p: "(2::nat) ^ 52 * 2 ^ 972 = 2 ^ 1024" by (simp add: power_add[symmetric])
  have "round_half_even 972 (2 ^ 1024) = 2 ^ 1024"
    unfolding round_half_even_def Let_def q r using p by simp
  then show ?thesis unfolding float_of_int_def Let_def a k by simp
qed

section \<open>The loader and the table switch\<close>

lemma cached_load:
  assumes "cache_consistent s" "conversion_factors s = Some j"
  shows "fst (get_conversion_factors fs file_path s) = Inr j"
    and "conversion_factors (snd (get_conversion_factors fs file_path s)) = Some j"
    and "default_conversion_file (snd (get_conversion_factors fs file_path s))
           = default_conversion_file s"
    and "cache_consistent (snd (get_conversion_factors fs file_path s))"
  using assms
  by (auto simp: get_conversion_factors_def get_conversion_factors_body_def cache_consistent_def
           split: option.splits prod.splits if_splits)

lemma empty_load:
  assumes "conversion_factors s = None" "\<forall>j. lru s \<noteq> Some (file_path, j)"
  shows "get_conversion_factors fs file_path s =
     (let p = (case file_path of None \<Rightarrow> default_conversion_file s | Some q \<Rightarrow> q) in
      case fs p of
        Missing \<Rightarrow> (Inl (FileNotFoundError (not_found_message p)), s)
      | Malformed \<Rightarrow> (Inl (ValueError (invalid_json_message p)), s)
      | Parsed j \<Rightarrow> (Inr j, s\<lparr>conversion_factors := (if j = JNull then None else Some j),
                               lru := Some (file_path, j)\<rparr>))"
  using assms
  by (auto simp: get_conversion_factors_def get_conversion_factors_body_def
           Let_def split: option.splits prod.splits if_splits source.splits)

lemma load_consistent:
  "cache_consistent s \<Longrightarrow> cache_consistent (snd (get_conversion_factors fs file_path s))"
  by (auto simp: get_conversion_factors_def get_conversion_factors_body_def cache_consistent_def
           Let_def split: option.splits prod.splits if_splits source.splits)

lemma set_conversion_file_eq:
  "set_conversion_file fs p s =
     (case fs p of
        Missing \<Rightarrow> (Inl (FileNotFoundError (not_found_message p)),
                     s\<lparr>lru := None, conversion_factors := None\<rparr>)
      | Malformed \<Rightarrow> (Inl (ValueError (invalid_json_message p)),
                     s\<lparr>lru := None, conversion_factors := None\<rparr>)
      | Parsed j \<Rightarrow> (Inr (), s\<lparr>lru := Some (Some p, j),
                                 conversion_factors := (if j = JNull then None else Some j),
                                 default_conversion_file := p\<rparr>))"
  by (auto simp: set_conversion_file_def get_conversion_factors_def get_conversion_factors_body_def
           Let_def split: option.splits prod.splits if_splits source.splits)

lemma loaded_state_is_first_load:
  "get_conversion_factors (one_file d (json_of t)) None (initial_state d)
     = (Inr (json_of t), loaded_state d t)"
  by (simp add: get_conversion_factors_def get_conversion_factors_body_def initial_state_def
        loaded_state_def one_file_def json_of_not_null)

lemma convert_consistent:
  "cache_consistent s \<Longrightarrow> cache_consistent (snd (convert ill_shaped fs v a b cf s))"
  using load_consistent[of s fs cf]
  by (auto simp: convert_def split: prod.splits sum.splits)

lemma set_conversion_file_consistent:
  "cache_consistent (snd (set_conversion_file fs p s))"
  by (simp add: set_conversion_file_eq cache_consistent_def split: source.splits)

lemma initial_state_consistent: "cache_consistent (initial_state d)"
  by (simp add: cache_consistent_def initial_state_def)

lemma loaded_state_consistent: "cache_consistent (loaded_state d t)"
  by (simp add: cache_consistent_def loaded_state_def json_of_not_null)

lemma get_available_units_consistent:
  "cache_consistent s \<Longrightarrow> cache_consistent (snd (get_available_units fs cf s))"
  using load_consistent[of s fs cf]
  by (auto simp: get_available_units_def split: prod.splits sum.splits)

lemma get_compatible_units_consistent:
  "cache_consistent s \<Longrightarrow> cache_consistent (snd (get_compatible_units fs u cf s))"
  using load_consistent[of s fs cf]
  by (auto simp: get_compatible_units_def split: prod.splits sum.splits)

lemma cached_load_pair:
  assumes "cache_consistent s" "conversion_factors s = Some j"
  shows "\<exists>s'. get_conversion_factors fs file_path s = (Inr j, s')
              \<and> conversion_factors s' = Some j
              \<and> default_conversion_file s' = default_conversion_file s"
  using cached_load[OF assms, of fs file_path]
  by (cases "get_conversion_factors fs file_path s") auto

lemma weight_table_keys: "map fst weight_table = [''lb'', ''oz'']"
  by (simp add: weight_table_def)

lemma kitchen_table_keys: "map fst kitchen_table = [''cup'', ''tbsp'']"
  by (simp add: kitchen_table_def)

text \<open>
  C8, as the code has it. The table switch clears the cache and loads the new source at once:
  a missing file, or a file that is not valid JSON, raises its load error from the switch
  itself. A file that is valid JSON is accepted whatever its shape, since the loader checks
  none: the new path becomes the default, and afterwards \<^verbatim>\<open>get_available_units()\<close> returns the
  keys of the new source when it is a mapping (in particular the keys of a new table, whatever
  the files then hold) and raises \<^verbatim>\<open>AttributeError\<close> when it is not.
\<close>

theorem set_conversion_file_loads_without_shape_check:
  "(fs p = Missing \<longrightarrow>
      fst (set_conversion_file fs p s) = Inl (FileNotFoundError (not_found_message p)))
   \<and> (fs p = Malformed \<longrightarrow>
      fst (set_conversion_file fs p s) = Inl (ValueError (invalid_json_message p)))
   \<and> (fs p = Parsed j \<longrightarrow>
      fst (set_conversion_file fs p s) = Inr ()
      \<and> default_conversion_file (snd (set_conversion_file fs p s)) = p
      \<and> (j \<noteq> JNull \<longrightarrow>
           conversion_factors (snd (set_conversion_file fs p s)) = Some j
         \<and> fst (get_conversion_factors fs' None (snd (set_conversion_file fs p s))) = Inr j
         \<and> fst (get_available_units fs' None (snd (set_conversion_file fs p s)))
             = available_units_of j)
      \<and> (j = json_of t \<longrightarrow>
           fst (get_available_units fs' None (snd (set_conversion_file fs p s)))
             = Inr (map fst t))
      \<and> ((\<forall>kv. j \<noteq> JObj kv) \<longrightarrow>
           fst (get_available_units fs None (snd (set_conversion_file fs p s)))
             = Inl AttributeError))"
proof -
  have shape: "(\<forall>kv. j \<noteq> JObj kv) \<Longrightarrow> available_units_of j = Inl AttributeError"
    by (cases j) auto
  show ?thesis
    using shape
    by (auto simp: set_conversion_file_eq get_available_units_def get_conversion_factors_def
          get_conversion_factors_body_def json_of_not_null available_units_of_table)
qed

theorem set_conversion_file_loads_without_shape_check_witness:
  "fst (set_conversion_file (one_file ''new.json'' (json_of weight_table)) ''absent.json''
          (loaded_state ''old.json'' kitchen_table))
     = Inl (FileNotFoundError ''Conversion file not found: absent.json'')
   \<and> fst (set_conversion_file (one_file ''new.json'' (json_of weight_table)) ''new.json''
          (loaded_state ''old.json'' kitchen_table)) = Inr ()
   \<and> fst (get_available_units no_files None
          (snd (set_conversion_file (one_file ''new.json'' (json_of weight_table)) ''new.json''
             (loaded_state ''old.json'' kitchen_table)))) = Inr [''lb'', ''oz'']"
  using set_conversion_file_loads_without_shape_check
          [where fs = "one_file ''new.json'' (json_of weight_table)"
          and p = "''absent.json''" and s = "loaded_state ''old.json'' kitchen_table"]
        set_conversion_file_loads_without_shape_check
          [where fs = "one_file ''new.json'' (json_of weight_table)"
          and p = "''new.json''" and j = "json_of weight_table" and t = weight_table
          and s = "loaded_state ''old.json'' kitchen_table" and fs' = no_files]
        weight_table_keys
  by (simp add: one_file_def not_found_message_def json_of_not_null
        available_units_of_table)

text \<open>
  C8 as stated fails for a source that is malformed by its shape: a file that holds the list
  \<^verbatim>\<open>[1, 2]\<close> passes the switch, which makes it the default, and the error shows only at the
  next \<^verbatim>\<open>get_available_units()\<close>.
\<close>

theorem set_conversion_file_accepts_a_list:
  "fst (set_conversion_file (one_file ''list.json'' list_file) ''list.json''
          (loaded_state ''old.json'' kitchen_table)) = Inr ()
   \<and> default_conversion_file
        (snd (set_conversion_file (one_file ''list.json'' list_file) ''list.json''
               (loaded_state ''old.json'' kitchen_table))) = ''list.json''
   \<and> fst (get_available_units (one_file ''list.json'' list_file) None
          (snd (set_conversion_file (one_file ''list.json'' list_file) ''list.json''
             (loaded_state ''old.json'' kitchen_table)))) = Inl AttributeError"
  by (simp add: set_conversion_file_eq one_file_def list_file_def get_available_units_def
        get_conversion_factors_def get_conversion_factors_body_def)

text \<open>
  C10. When \<^verbatim>\<open>set_conversion_file(p)\<close> fails because \<open>p\<close> is missing or is not valid JSON, the
  error leaves the switch after both caches were cleared and before the default path is
  assigned: the default path is the one from before, the attribute and the cache entry are
  empty, and the next load without an argument reads the previous default path, not \<open>p\<close>.
\<close>

theorem set_conversion_file_failure:
  assumes "fs p = Missing \<or> fs p = Malformed"
  shows "(\<exists>e. fst (set_conversion_file fs p s) = Inl e)
    \<and> default_conversion_file (snd (set_conversion_file fs p s)) = default_conversion_file s
    \<and> conversion_factors (snd (set_conversion_file fs p s)) = None
    \<and> lru (snd (set_conversion_file fs p s)) = None
    \<and> (fs2 (default_conversion_file s) = Parsed t \<longrightarrow>
         fst (get_conversion_factors fs2 None (snd (set_conversion_file fs p s))) = Inr t)
    \<and> (fs2 (default_conversion_file s) = Missing \<longrightarrow>
         fst (get_conversion_factors fs2 None (snd (set_conversion_file fs p s)))
           = Inl (FileNotFoundError (not_found_message (default_conversion_file s))))"
  using assms
  by (auto simp: set_conversion_file_eq get_conversion_factors_def
        get_conversion_factors_body_def)

theorem set_conversion_file_failure_witness:
  "fst (set_conversion_file (one_file ''old.json'' (json_of kitchen_table)) ''absent.json''
          (loaded_state ''old.json'' weight_table))
     = Inl (FileNotFoundError ''Conversion file not found: absent.json'')
   \<and> default_conversion_file (snd (set_conversion_file
          (one_file ''old.json'' (json_of kitchen_table))
          ''absent.json'' (loaded_state ''old.json'' weight_table))) = ''old.json''
   \<and> fst (get_conversion_factors (one_file ''old.json'' (json_of kitchen_table)) None
          (snd (set_conversion_file (one_file ''old.json'' (json_of kitchen_table))
             ''absent.json'' (loaded_state ''old.json'' weight_table))))
       = Inr (json_of kitchen_table)"
  using set_conversion_file_failure [where fs = "one_file ''old.json'' (json_of kitchen_table)"
          and p = "''absent.json''" and s = "loaded_state ''old.json'' weight_table"
          and ?fs2.0 = "one_file ''old.json'' (json_of kitchen_table)"
          and t = "json_of kitchen_table"]
  by (simp add: one_file_def loaded_state_def set_conversion_file_eq not_found_message_def)

text \<open>
  C4. The loader memoizes in one slot. With a table in the slot, a load without an argument
  returns that table for every file system (no source is read), every operation other than the
  switch leaves the slot as it is, and after a switch to another source the loads without an
  argument return the table of that most recent load.
\<close>

theorem loader_single_slot:
  assumes "cache_consistent s" and "conversion_factors s = Some (json_of t)"
  shows "fst (get_conversion_factors fs None s) = Inr (json_of t)
    \<and> conversion_factors (snd (get_conversion_factors fs file_path s)) = Some (json_of t)
    \<and> conversion_factors (snd (convert ill_shaped fs v a b file_path s)) = Some (json_of t)
    \<and> conversion_factors (snd (get_available_units fs file_path s)) = Some (json_of t)
    \<and> conversion_factors (snd (get_compatible_units fs u file_path s)) = Some (json_of t)
    \<and> (fs p = Parsed (json_of t') \<longrightarrow>
         fst (get_conversion_factors fs' None (snd (set_conversion_file fs p s)))
           = Inr (json_of t')
         \<and> fst (get_conversion_factors fs' None
                 (snd (get_conversion_factors fs' None (snd (set_conversion_file fs p s)))))
             = Inr (json_of t'))"
proof -
  obtain s1 where s1: "get_conversion_factors fs file_path s = (Inr (json_of t), s1)"
      "conversion_factors s1 = Some (json_of t)"
    using cached_load_pair[OF assms] by blast
  have a: "fst (get_conversion_factors fs None s) = Inr (json_of t)"
    using cached_load(1)[OF assms] .
  have b: "conversion_factors (snd (convert ill_shaped fs v a b file_path s))
             = Some (json_of t)"
    using s1 by (simp add: convert_def)
  have c: "conversion_factors (snd (get_available_units fs file_path s)) = Some (json_of t)"
    using s1 by (simp add: get_available_units_def)
  have d: "conversion_factors (snd (get_compatible_units fs u file_path s))
             = Some (json_of t)"
    using s1 by (simp add: get_compatible_units_def)
  have e: "fs p = Parsed (json_of t') \<longrightarrow>
         fst (get_conversion_factors fs' None (snd (set_conversion_file fs p s)))
           = Inr (json_of t')
         \<and> fst (get_conversion_factors fs' None
                 (snd (get_conversion_factors fs' None (snd (set_conversion_file fs p s)))))
             = Inr (json_of t')"
    by (simp add: set_conversion_file_eq get_conversion_factors_def
          get_conversion_factors_body_def json_of_not_null)
  from a s1 b c d e show ?thesis by simp
qed

theorem loader_single_slot_witness:
  "fst (get_conversion_factors no_files None (loaded_state ''conversions.json'' kitchen_table))
     = Inr (json_of kitchen_table)
   \<and> fst (get_conversion_factors (one_file ''conversions.json'' (json_of kitchen_table)) None
       (snd (set_conversion_file (one_file ''other.json'' (json_of weight_table))
          ''other.json'' (loaded_state ''conversions.json'' kitchen_table))))
       = Inr (json_of weight_table)"
  using loader_single_slot [OF loaded_state_consistent,
          where d1 = "''conversions.json''" and t1 = kitchen_table and t = kitchen_table
          and fs = "one_file ''other.json'' (json_of weight_table)" and p = "''other.json''"
          and t' = weight_table
          and fs' = "one_file ''conversions.json'' (json_of kitchen_table)"]
        loader_single_slot [OF loaded_state_consistent,
          where d1 = "''conversions.json''" and t1 = kitchen_table and t = kitchen_table
          and fs = no_files]
  by (simp add: loaded_state_def one_file_def)

text \<open>
  C9. The per-call \<^verbatim>\<open>conversion_file\<close> of \<^verbatim>\<open>convert\<close>, \<^verbatim>\<open>get_available_units\<close> and
  \<^verbatim>\<open>get_compatible_units\<close> is ignored once a table is cached: the loader returns the cached
  table before it looks at the argument. Only with an empty slot does the call read the path
  it was given. (The slot is empty when the attribute is \<^verbatim>\<open>None\<close> and the decorator holds no
  result for that path; the decorator can hold \<^verbatim>\<open>None\<close> for it, after a file that held
  \<^verbatim>\<open>null\<close>.)
\<close>

theorem per_call_source_ignored:
  assumes "cache_consistent s"
  shows "(conversion_factors s = Some (json_of t) \<longrightarrow>
            fst (get_conversion_factors fs (Some p) s) = Inr (json_of t)
          \<and> fst (convert ill_shaped fs v a b (Some p) s) = convert_on t v a b
          \<and> fst (get_available_units fs (Some p) s) = Inr (map fst t)
          \<and> fst (get_compatible_units fs u (Some p) s) = Inr (compatible_on t u))
       \<and> (conversion_factors s = None \<and> (\<forall>j. lru s \<noteq> Some (Some p, j))
            \<and> fs p = Parsed (json_of t') \<longrightarrow>
            fst (get_conversion_factors fs (Some p) s) = Inr (json_of t')
          \<and> fst (convert ill_shaped fs v a b (Some p) s) = convert_on t' v a b
          \<and> fst (get_available_units fs (Some p) s) = Inr (map fst t')
          \<and> fst (get_compatible_units fs u (Some p) s) = Inr (compatible_on t' u))"
proof (intro conjI impI)
  assume c: "conversion_factors s = Some (json_of t)"
  obtain s1 where s1: "get_conversion_factors fs (Some p) s = (Inr (json_of t), s1)"
    using cached_load_pair[OF assms c] by blast
  show "fst (get_conversion_factors fs (Some p) s) = Inr (json_of t)" using s1 by simp
  show "fst (convert ill_shaped fs v a b (Some p) s) = convert_on t v a b"
    using s1 by (simp add: convert_def convert_json_table)
  show "fst (get_available_units fs (Some p) s) = Inr (map fst t)"
    using s1 by (simp add: get_available_units_def available_units_of_table)
  show "fst (get_compatible_units fs u (Some p) s) = Inr (compatible_on t u)"
    using s1 by (simp add: get_compatible_units_def compatible_units_of_table)
next
  assume c: "conversion_factors s = None \<and> (\<forall>j. lru s \<noteq> Some (Some p, j))
               \<and> fs p = Parsed (json_of t')"
  have s1: "get_conversion_factors fs (Some p) s
              = (Inr (json_of t'), s\<lparr>conversion_factors := Some (json_of t'),
                                     lru := Some (Some p, json_of t')\<rparr>)"
    using empty_load[of s "Some p" fs] c by (simp add: json_of_not_null)
  show "fst (get_conversion_factors fs (Some p) s) = Inr (json_of t')" using s1 by simp
  show "fst (convert ill_shaped fs v a b (Some p) s) = convert_on t' v a b"
    using s1 by (simp add: convert_def convert_json_table)
  show "fst (get_available_units fs (Some p) s) = Inr (map fst t')"
    using s1 by (simp add: get_available_units_def available_units_of_table)
  show "fst (get_compatible_units fs u (Some p) s) = Inr (compatible_on t' u)"
    using s1 by (simp add: get_compatible_units_def compatible_units_of_table)
qed

theorem per_call_source_ignored_witness:
  "fst (get_available_units (one_file ''other.json'' (json_of weight_table))
          (Some ''other.json'') (loaded_state ''conversions.json'' kitchen_table))
     = Inr [''cup'', ''tbsp'']
   \<and> fst (get_available_units (one_file ''other.json'' (json_of weight_table))
          (Some ''other.json'') (initial_state ''conversions.json'')) = Inr [''lb'', ''oz'']"
  using per_call_source_ignored [OF loaded_state_consistent,
          where d1 = "''conversions.json''" and t1 = kitchen_table and t = kitchen_table
          and fs = "one_file ''other.json'' (json_of weight_table)" and p = "''other.json''"]
        per_call_source_ignored [OF initial_state_consistent,
          where d1 = "''conversions.json''" and t' = weight_table
          and fs = "one_file ''other.json'' (json_of weight_table)" and p = "''other.json''"]
        weight_table_keys kitchen_table_keys
  by (simp add: loaded_state_def initial_state_def one_file_def)

text \<open>
  The decorator keeps a result of \<^verbatim>\<open>None\<close> like any other: after a load of a file that held
  \<^verbatim>\<open>null\<close>, the attribute is still \<^verbatim>\<open>None\<close>, and a second call with the same path returns the
  \<^verbatim>\<open>None\<close> of the first even when the file now holds a table.
\<close>

lemma null_result_is_cached:
  "fst (get_conversion_factors (one_file ''p.json'' (json_of weight_table)) (Some ''p.json'')
          (snd (get_conversion_factors (one_file ''p.json'' JNull) (Some ''p.json'')
                  (initial_state ''conversions.json'')))) = Inr JNull
   \<and> conversion_factors (snd (get_conversion_factors (one_file ''p.json'' JNull)
          (Some ''p.json'') (initial_state ''conversions.json''))) = None"
  by (simp add: get_conversion_factors_def get_conversion_factors_body_def one_file_def
        initial_state_def)

section \<open>The search\<close>

text \<open>
  What the search returns is a chain of stored edges (soundness); a search that fails leaves
  behind a visited set closed under the edges of the table in which no unit has an edge to the
  target (completeness). Together: the search started with an empty visited set succeeds
  exactly when the target can be reached over one or more forward edges.
\<close>

lemma edge_iff_neighbour:
  "factor_of t x y \<noteq> None \<longleftrightarrow> y \<in> set (neighbours t x)"
proof (cases "map_of t x")
  case None
  then show ?thesis by (simp add: factor_of_def neighbours_def)
next
  case (Some row)
  have "(map_of row y \<noteq> None) = (y \<in> fst ` set row)"
    using map_of_eq_None_iff[of row y] by simp
  then show ?thesis using Some by (simp add: factor_of_def neighbours_def)
qed

lemma neighbour_factor:
  "y \<in> set (neighbours t x) \<Longrightarrow> \<exists>f. factor_of t x y = Some f"
  using edge_iff_neighbour[of t x y] by auto

lemma search_result_nonempty:
  "fst (find_conversion_path t c g V) \<noteq> Some []"
  "fst (try_intermediates t c g ns V) \<noteq> Some []"
proof (induction t c g V and t c g ns V rule: find_conversion_path_try_intermediates.induct)
  case (1 factors current_unit target_unit visited)
  then show ?case by (simp split: option.splits)
next
  case (2 factors current_unit target_unit visited)
  then show ?case by simp
next
  case (3 factors current_unit target_unit intermediate_unit rest visited)
  then show ?case by (auto split: prod.splits)
qed

lemma truthy_iff: "fst (find_conversion_path t c g V) \<noteq> None \<longleftrightarrow> truthy (fst (find_conversion_path t c g V))"
  using search_result_nonempty(1)[of t c g V]
  by (cases "fst (find_conversion_path t c g V)") auto

lemma search_sound:
  "truthy (fst (find_conversion_path t c g V)) \<Longrightarrow>
     is_path t c (the (fst (find_conversion_path t c g V))) g"
  "set ns \<subseteq> set (neighbours t c) \<Longrightarrow> truthy (fst (try_intermediates t c g ns V)) \<Longrightarrow>
     is_path t c (the (fst (try_intermediates t c g ns V))) g"
proof (induction t c g V and t c g ns V rule: find_conversion_path_try_intermediates.induct)
  case (1 factors current_unit target_unit visited)
  then show ?case by (auto split: option.splits)
next
  case (2 factors current_unit target_unit visited)
  then show ?case by simp
next
  case (3 factors current_unit target_unit intermediate_unit rest visited)
  obtain f where f: "factor_of factors current_unit intermediate_unit = Some f"
    using neighbour_factor[of intermediate_unit factors current_unit] "3.prems"(1) by auto
  show ?case
  proof (cases "intermediate_unit \<in> visited")
    case True
    then show ?thesis using "3.IH"(3) "3.prems" by simp
  next
    case False
    obtain p V' where r: "find_conversion_path factors intermediate_unit target_unit visited = (p, V')"
      by (cases "find_conversion_path factors intermediate_unit target_unit visited")
    show ?thesis
    proof (cases "truthy p")
      case True
      then have "is_path factors intermediate_unit (the p) target_unit"
        using "3.IH"(1)[OF False] r by simp
      then show ?thesis using False r True f by simp
    next
      case nt: False
      then show ?thesis using "3.IH"(2)[OF False r[symmetric] nt] "3.prems" False r by simp
    qed
  qed
qed

lemma search_failure_closed:
  "\<not> truthy (fst (find_conversion_path t c g V)) \<Longrightarrow>
     c \<in> snd (find_conversion_path t c g V)
     \<and> (\<forall>x \<in> snd (find_conversion_path t c g V) - V.
           factor_of t x g = None
           \<and> set (neighbours t x) \<subseteq> snd (find_conversion_path t c g V))"
  "\<not> truthy (fst (try_intermediates t c g ns V)) \<Longrightarrow>
     set ns \<subseteq> snd (try_intermediates t c g ns V)
     \<and> (\<forall>x \<in> snd (try_intermediates t c g ns V) - V.
           factor_of t x g = None
           \<and> set (neighbours t x) \<subseteq> snd (try_intermediates t c g ns V))"
proof (induction t c g V and t c g ns V rule: find_conversion_path_try_intermediates.induct)
  case (1 factors current_unit target_unit visited)
  show ?case
  proof (cases "factor_of factors current_unit target_unit")
    case None
    let ?r = "try_intermediates factors current_unit target_unit
                (neighbours factors current_unit) (insert current_unit visited)"
    have eq: "find_conversion_path factors current_unit target_unit visited = ?r"
      using None by simp
    have nt: "\<not> truthy (fst ?r)" using "1.prems" eq by simp
    note ih = "1.IH"[OF None nt]
    have sub: "insert current_unit visited \<subseteq> snd ?r" by (rule visited_grows(2))
    show ?thesis unfolding eq using ih sub None by auto
  next
    case (Some f)
    then show ?thesis using "1.prems" by simp
  qed
next
  case (2 factors current_unit target_unit visited)
  then show ?case by simp
next
  case (3 factors current_unit target_unit intermediate_unit rest visited)
  show ?case
  proof (cases "intermediate_unit \<in> visited")
    case True
    let ?r = "try_intermediates factors current_unit target_unit rest visited"
    have eq: "try_intermediates factors current_unit target_unit (intermediate_unit # rest) visited = ?r"
      using True by simp
    have nt: "\<not> truthy (fst ?r)" using "3.prems" eq by simp
    have "visited \<subseteq> snd ?r" by (rule visited_grows(2))
    then show ?thesis unfolding eq using "3.IH"(3)[OF _ nt] True by auto
  next
    case False
    obtain p V' where r: "find_conversion_path factors intermediate_unit target_unit visited = (p, V')"
      by (cases "find_conversion_path factors intermediate_unit target_unit visited")
    have ntp: "\<not> truthy p" using "3.prems" False r by (auto split: if_splits)
    let ?r = "try_intermediates factors current_unit target_unit rest V'"
    have eq: "try_intermediates factors current_unit target_unit (intermediate_unit # rest) visited = ?r"
      using False r ntp by simp
    have nt: "\<not> truthy (fst ?r)" using "3.prems" eq by simp
    have ih1: "intermediate_unit \<in> V' \<and> (\<forall>x \<in> V' - visited.
           factor_of factors x target_unit = None \<and> set (neighbours factors x) \<subseteq> V')"
      using "3.IH"(1)[OF False] ntp r by simp
    have ih2: "set rest \<subseteq> snd ?r \<and> (\<forall>x \<in> snd ?r - V'.
           factor_of factors x target_unit = None \<and> set (neighbours factors x) \<subseteq> snd ?r)"
      using "3.IH"(2)[OF False r[symmetric] ntp nt] .
    have sub: "V' \<subseteq> snd ?r" by (rule visited_grows(2))
    show ?thesis unfolding eq using ih1 ih2 sub by (auto; blast)
  qed
qed

lemma closed_set_reach:
  assumes "(a, y) \<in> (edges t)\<^sup>*" "a \<in> S" "\<forall>x\<in>S. set (neighbours t x) \<subseteq> S"
  shows "y \<in> S"
  using assms(1)
proof (induction rule: rtrancl_induct)
  case base
  then show ?case using assms(2) .
next
  case (step y z)
  then have "z \<in> set (neighbours t y)"
    using edge_iff_neighbour[of t y z] by (simp add: edges_def)
  then show ?case using step.IH assms(3) by blast
qed

lemma closed_set_no_path:
  assumes "a \<in> S" "\<forall>x\<in>S. factor_of t x g = None \<and> set (neighbours t x) \<subseteq> S"
  shows "(a, g) \<notin> (edges t)\<^sup>+"
proof
  assume "(a, g) \<in> (edges t)\<^sup>+"
  then obtain x where x: "(a, x) \<in> (edges t)\<^sup>*" "(x, g) \<in> edges t"
    by (meson tranclD2)
  have "x \<in> S" using closed_set_reach[OF x(1) assms(1)] assms(2) by blast
  then have "factor_of t x g = None" using assms(2) by blast
  then show False using x(2) by (simp add: edges_def)
qed

lemma path_reach:
  "is_path t a p b \<Longrightarrow> p \<noteq> [] \<Longrightarrow> (a, b) \<in> (edges t)\<^sup>+"
proof (induction p arbitrary: a)
  case Nil
  then show ?case by simp
next
  case (Cons e p)
  obtain x y f where e: "e = (x, y, f)" by (cases e)
  have xa: "x = a" and ed: "(a, y) \<in> edges t" and rest: "is_path t y p b"
    using Cons.prems(1) e by (auto simp: edges_def)
  show ?case
  proof (cases p)
    case Nil
    then have "y = b" using rest by simp
    then show ?thesis using ed by blast
  next
    case (Cons e' p')
    then have "(y, b) \<in> (edges t)\<^sup>+" using Cons.IH[OF rest] by simp
    then show ?thesis using ed by (meson trancl_into_trancl2)
  qed
qed

lemma search_success_reach:
  "truthy (fst (find_conversion_path t c g V)) \<Longrightarrow> (c, g) \<in> (edges t)\<^sup>+"
  using search_sound(1)[of t c g V] path_reach[of t c _ g]
  by (cases "fst (find_conversion_path t c g V)") auto

lemma search_complete:
  assumes "\<not> truthy (fst (find_conversion_path t a g {}))"
  shows "(a, g) \<notin> (edges t)\<^sup>+"
proof -
  define S where "S = snd (find_conversion_path t a g {})"
  have "a \<in> S \<and> (\<forall>x\<in>S - {}. factor_of t x g = None \<and> set (neighbours t x) \<subseteq> S)"
    unfolding S_def using search_failure_closed(1)[OF assms] .
  then have "a \<in> S" and "\<forall>x\<in>S. factor_of t x g = None \<and> set (neighbours t x) \<subseteq> S"
    by simp_all
  then show ?thesis by (rule closed_set_no_path)
qed

lemma search_iff:
  "truthy (fst (find_conversion_path t a g {})) \<longleftrightarrow> (a, g) \<in> (edges t)\<^sup>+"
  using search_complete[of t a g] search_success_reach[of t a g "{}"] by blast

lemma convert_on_search:
  assumes "a \<noteq> b" "factor_of t a b = None" "factor_of t b a = None"
  shows "convert_on t v a b =
     (if truthy (fst (find_conversion_path t a b {}))
      then Inr (foldl (\<lambda>result (start_unit, end_unit, factor). result * factor) (num_val v)
                  (the (fst (find_conversion_path t a b {}))))
      else Inl (ValueError (no_path_message a b)))"
  using assms by (simp add: convert_on_def split: prod.splits)

lemma to_float_small_int: "\<bar>n\<bar> \<le> 2 ^ 53 \<Longrightarrow> to_float (PyInt n) = Inr (of_int n)"
  by (simp add: float_of_int_exact)

lemma to_float_one: "to_float (PyInt 1) = Inr 1"
  using to_float_small_int[of 1] by simp

section \<open>Conversion\<close>

text \<open>
  C2, as the code has it. \<^verbatim>\<open>convert\<close> calls the loader first and compares the units second:
  as soon as the loader returns a value, whatever it holds and whether or not \<open>u\<close> occurs in
  it, \<^verbatim>\<open>convert(v, u, u)\<close> returns \<^verbatim>\<open>float(v)\<close>, a floating-point number: \<open>v\<close> itself when \<open>v\<close>
  is a float, and \<open>v\<close> unchanged when \<open>v\<close> is an integer of magnitude up to \<open>2 ^ 53\<close>. When
  the loader fails, \<^verbatim>\<open>convert(v, u, u)\<close> raises the loader's error.
\<close>

theorem convert_identity_after_load:
  "fst (convert ill_shaped fs v u u conversion_file s) =
     (case fst (get_conversion_factors fs conversion_file s) of
        Inl e \<Rightarrow> Inl e
      | Inr factors \<Rightarrow> to_float v)
   \<and> to_float (PyFloat x) = Inr x
   \<and> (\<bar>n\<bar> \<le> 2 ^ 53 \<longrightarrow> to_float (PyInt n) = Inr (of_int n))"
  by (simp add: convert_def convert_json_def float_of_int_exact split: prod.splits sum.splits)

theorem convert_identity_after_load_witness:
  "fst (convert always_type_error no_files (PyFloat 2.5) ''pinch'' ''pinch'' None
          (loaded_state ''conversions.json'' kitchen_table)) = Inr 2.5
   \<and> fst (convert always_type_error no_files (PyInt 3) ''pinch'' ''pinch'' None
          (loaded_state ''conversions.json'' kitchen_table)) = Inr 3"
  using convert_identity_after_load [of always_type_error no_files "PyFloat 2.5" "''pinch''"
          None "loaded_state ''conversions.json'' kitchen_table" "2.5" 3]
        convert_identity_after_load [of always_type_error no_files "PyInt 3" "''pinch''"
          None "loaded_state ''conversions.json'' kitchen_table" "2.5" 3]
  by (simp add: get_conversion_factors_def loaded_state_def)

text \<open>
  C2 as stated fails: with no table cached and a default file that does not exist,
  \<^verbatim>\<open>convert(1, "cup", "cup")\<close> raises \<^verbatim>\<open>FileNotFoundError\<close>.
\<close>

theorem convert_identity_load_failure:
  "fst (convert always_type_error no_files (PyInt 1) ''cup'' ''cup'' None
          (initial_state ''conversions.json''))
     = Inl (FileNotFoundError ''Conversion file not found: conversions.json'')"
  by (simp add: convert_def get_conversion_factors_def get_conversion_factors_body_def
        initial_state_def no_files_def not_found_message_def)

text \<open>
  Beyond \<open>2 ^ 53\<close> the conversion to a float shows: \<^verbatim>\<open>convert(2**53 + 1, "cup", "cup")\<close> is
  \<open>2 ^ 53\<close>, and \<^verbatim>\<open>convert(2**1024, "cup", "cup")\<close> raises \<^verbatim>\<open>OverflowError\<close>.
\<close>

lemma convert_identity_loaded:
  "fst (convert ill_shaped fs v u u None (loaded_state d t)) = to_float v"
  by (simp add: convert_def convert_json_def get_conversion_factors_def loaded_state_def)

theorem convert_identity_rounds_large_int:
  "fst (convert always_type_error no_files (PyInt 9007199254740993) ''cup'' ''cup'' None
          (loaded_state ''conversions.json'' kitchen_table)) = Inr 9007199254740992
   \<and> fst (convert always_type_error no_files (PyInt (2 ^ 1024)) ''cup'' ''cup'' None
          (loaded_state ''conversions.json'' kitchen_table)) = Inl OverflowError"
  by (simp only: convert_identity_loaded to_float.simps float_of_int_ties_to_even
        float_of_int_overflow simp_thms)

lemma loader_errors:
  assumes "fst (get_conversion_factors fs cf s) = Inl e"
  shows "(\<exists>p. e = FileNotFoundError (not_found_message p))
       \<or> (\<exists>p. e = ValueError (invalid_json_message p))"
  using assms
  by (auto simp: get_conversion_factors_def get_conversion_factors_body_def Let_def
           split: option.splits prod.splits if_splits source.splits sum.splits)

lemma messages_differ: "invalid_json_message p \<noteq> no_path_message a b"
  by (simp add: invalid_json_message_def no_path_message_def)

lemma no_path_message_text:
  "no_path_message a b
     = ''No conversion path found from '' @ [CHR 0x27] @ a @ [CHR 0x27] @ '' to ''
         @ [CHR 0x27] @ b @ [CHR 0x27]"
  by (simp add: no_path_message_def quoted_def)

lemma to_float_not_value_error: "to_float v \<noteq> Inl (ValueError m)"
  by (cases v) (auto simp: float_of_int_def Let_def)

lemma convert_on_no_path_iff:
  "convert_on t v a b = Inl (ValueError (no_path_message a b)) \<longleftrightarrow>
     a \<noteq> b \<and> factor_of t a b = None \<and> factor_of t b a = None \<and> (a, b) \<notin> (edges t)\<^sup>+"
proof (cases "a \<noteq> b \<and> factor_of t a b = None \<and> factor_of t b a = None")
  case True
  then show ?thesis
    using convert_on_search[of a b t v] search_iff[of t a b] by auto
next
  case False
  then have "convert_on t v a b \<noteq> Inl (ValueError (no_path_message a b))"
    using to_float_not_value_error[of v]
    by (auto simp: convert_on_def split: option.splits)
  then show ?thesis using False by blast
qed

text \<open>
  C7. When the loader returned a table, \<^verbatim>\<open>convert\<close> raises \<^verbatim>\<open>ValueError\<close> with the message
  "No conversion path found from 'a' to 'b'", in which \<open>a\<close> is \<^verbatim>\<open>from_unit\<close> and \<open>b\<close> is
  \<^verbatim>\<open>to_unit\<close>, exactly when the units differ, the table has neither the direct nor the reverse
  entry, and no chain of forward edges leads from \<open>a\<close> to \<open>b\<close>. An error of the loader is
  passed on and is never this one. The result is a function of the table and the arguments.
\<close>

theorem no_conversion_path_exactly:
  "(fst (get_conversion_factors fs conversion_file s) = Inr (json_of t) \<longrightarrow>
      (fst (convert ill_shaped fs v a b conversion_file s)
         = Inl (ValueError (''No conversion path found from '' @ [CHR 0x27] @ a @ [CHR 0x27]
                              @ '' to '' @ [CHR 0x27] @ b @ [CHR 0x27]))
       \<longleftrightarrow> a \<noteq> b \<and> factor_of t a b = None \<and> factor_of t b a = None
           \<and> (a, b) \<notin> (edges t)\<^sup>+))
   \<and> (fst (get_conversion_factors fs conversion_file s) = Inl e \<longrightarrow>
      fst (convert ill_shaped fs v a b conversion_file s) = Inl e
      \<and> e \<noteq> ValueError (''No conversion path found from '' @ [CHR 0x27] @ a @ [CHR 0x27]
                              @ '' to '' @ [CHR 0x27] @ b @ [CHR 0x27]))"
proof (intro conjI impI)
  assume l: "fst (get_conversion_factors fs conversion_file s) = Inr (json_of t)"
  then have "fst (convert ill_shaped fs v a b conversion_file s) = convert_on t v a b"
    by (cases "get_conversion_factors fs conversion_file s")
       (simp add: convert_def convert_json_table)
  then show "fst (convert ill_shaped fs v a b conversion_file s)
         = Inl (ValueError (''No conversion path found from '' @ [CHR 0x27] @ a @ [CHR 0x27]
                              @ '' to '' @ [CHR 0x27] @ b @ [CHR 0x27]))
       \<longleftrightarrow> a \<noteq> b \<and> factor_of t a b = None \<and> factor_of t b a = None
           \<and> (a, b) \<notin> (edges t)\<^sup>+"
    using convert_on_no_path_iff[of t v a b] by (simp only: no_path_message_text)
next
  assume l: "fst (get_conversion_factors fs conversion_file s) = Inl e"
  then show "fst (convert ill_shaped fs v a b conversion_file s) = Inl e"
    by (cases "get_conversion_factors fs conversion_file s") (simp add: convert_def)
  have "e \<noteq> ValueError (no_path_message a b)"
  proof
    assume "e = ValueError (no_path_message a b)"
    then obtain p where "no_path_message a b = invalid_json_message p"
      using loader_errors[OF l] by auto
    then show False using messages_differ[of p a b] by simp
  qed
  then show "e \<noteq> ValueError (''No conversion path found from '' @ [CHR 0x27] @ a
                @ [CHR 0x27] @ '' to '' @ [CHR 0x27] @ b @ [CHR 0x27])"
    unfolding no_path_message_text .
qed

theorem no_conversion_path_exactly_witness:
  "fst (convert always_type_error no_files (PyInt 1) ''x'' ''y'' None
          (loaded_state ''conversions.json'' []))
     = Inl (ValueError (''No conversion path found from 'x' to 'y'' @ [CHR 0x27]))"
proof -
  have "fst (get_conversion_factors no_files None (loaded_state ''conversions.json'' []))
          = Inr (json_of [])"
    by (simp add: get_conversion_factors_def loaded_state_def)
  moreover have "(''x'', ''y'') \<notin> (edges [])\<^sup>+"
    by (simp add: edges_def factor_of_def)
  ultimately show ?thesis
    using no_conversion_path_exactly [of no_files None "loaded_state ''conversions.json'' []"
            "[]" always_type_error "PyInt 1" "''x''" "''y''"]
    by (simp add: factor_of_def)
qed

text \<open>
  C3. The search follows forward edges only: a path it returns is a chain of stored edges in
  their stored direction. So when \<open>b\<close> cannot be reached from \<open>a\<close> over forward edges and the
  table has no entry \<open>b \<rightarrow> a\<close>, \<^verbatim>\<open>convert\<close> fails with the no-path error, also when \<open>b\<close>
  could be reached by walking some edge backwards at an intermediate unit (as in
  \<open>a \<rightarrow> x \<leftarrow> b\<close>).
\<close>

theorem search_follows_forward_edges_only:
  "(truthy (fst (find_conversion_path t c g V)) \<longrightarrow>
       is_path t c (the (fst (find_conversion_path t c g V))) g)
   \<and> ((a, b) \<notin> (edges t)\<^sup>* \<and> factor_of t b a = None \<longrightarrow>
       convert_on t v a b = Inl (ValueError (no_path_message a b)))"
proof (intro conjI impI)
  assume "truthy (fst (find_conversion_path t c g V))"
  then show "is_path t c (the (fst (find_conversion_path t c g V))) g"
    by (rule search_sound(1))
next
  assume h: "(a, b) \<notin> (edges t)\<^sup>* \<and> factor_of t b a = None"
  then have ne: "a \<noteq> b" by auto
  have nt: "(a, b) \<notin> (edges t)\<^sup>+" using h by (meson trancl_into_rtrancl)
  then have "(a, b) \<notin> edges t" by blast
  then have "factor_of t a b = None" by (simp add: edges_def)
  then show "convert_on t v a b = Inl (ValueError (no_path_message a b))"
    using convert_on_no_path_iff[of t v a b] ne nt h by simp
qed

theorem search_follows_forward_edges_only_witness:
  "(''a'', ''x'') \<in> edges fan_in_table \<and> (''b'', ''x'') \<in> edges fan_in_table
   \<and> convert_on fan_in_table (PyInt 1) ''a'' ''b''
       = Inl (ValueError (no_path_message ''a'' ''b''))
   \<and> is_path weight_table ''lb''
        (the (fst (find_conversion_path weight_table ''lb'' ''g'' {}))) ''g''"
proof -
  have closed: "\<forall>x\<in>{''a'', ''x''}. set (neighbours fan_in_table x) \<subseteq> {''a'', ''x''}"
    by (simp add: neighbours_def fan_in_table_def)
  have unreach: "(''a'', ''b'') \<notin> (edges fan_in_table)\<^sup>*"
    using closed_set_reach[of "''a''" "''b''" fan_in_table "{''a'', ''x''}"] closed by auto
  have rev: "factor_of fan_in_table ''b'' ''a'' = None"
    by (simp add: factor_of_def fan_in_table_def)
  have tr: "truthy (fst (find_conversion_path weight_table ''lb'' ''g'' {}))"
    by (simp add: factor_of_def neighbours_def weight_table_def)
  have e: "(''a'', ''x'') \<in> edges fan_in_table \<and> (''b'', ''x'') \<in> edges fan_in_table"
    by (simp add: edges_def factor_of_def fan_in_table_def)
  show ?thesis
    using search_follows_forward_edges_only [where t = fan_in_table and a = "''a''"
            and b = "''b''" and v = "PyInt 1" and c = "''a''" and g = "''b''" and V = "{}"]
          search_follows_forward_edges_only [where t = weight_table and c = "''lb''"
            and g = "''g''" and V = "{}" and a = "''lb''" and b = "''lb''" and v = "PyInt 1"]
          unreach rev tr e
    by simp
qed

text \<open>
  C5, as the code has it. For a table with an entry \<open>a \<rightarrow> b\<close> of factor \<open>f\<close> and \<open>a \<noteq> b\<close>,
  \<^verbatim>\<open>convert(1, a, b)\<close> returns \<open>f\<close>; \<^verbatim>\<open>convert(1, b, a)\<close> returns \<open>1 / f\<close> when the table has no
  direct entry \<open>b \<rightarrow> a\<close> and \<open>f\<close> is not zero, in particular when the table has no row for
  \<open>b\<close> at all; the division raises \<^verbatim>\<open>ZeroDivisionError\<close> for a stored factor of zero.
\<close>

theorem direct_and_reverse_lookup:
  assumes "factor_of t a b = Some f" and "a \<noteq> b"
  shows "convert_on t (PyInt 1) a b = Inr f
    \<and> (factor_of t b a = None \<and> f \<noteq> 0 \<longrightarrow> convert_on t (PyInt 1) b a = Inr (1 / f))
    \<and> (map_of t b = None \<and> f \<noteq> 0 \<longrightarrow> convert_on t (PyInt 1) b a = Inr (1 / f))
    \<and> (factor_of t b a = None \<and> f = 0 \<longrightarrow>
          convert_on t (PyInt 1) b a = Inl ZeroDivisionError)"
  using assms by (auto simp: convert_on_def factor_of_def)

theorem direct_and_reverse_lookup_witness:
  "convert_on weight_table (PyInt 1) ''lb'' ''oz'' = Inr 16
   \<and> map_of weight_table ''g'' = None
   \<and> convert_on weight_table (PyInt 1) ''g'' ''oz'' = Inr (1 / 28.35)"
  using direct_and_reverse_lookup [of weight_table "''lb''" "''oz''" 16]
        direct_and_reverse_lookup [of weight_table "''oz''" "''g''" "28.35"]
  by (simp add: factor_of_def weight_table_def)

text \<open>
  C5 as stated fails on a self-loop: the table stores \<open>a \<rightarrow> a\<close> with factor 2, and
  \<^verbatim>\<open>convert(1, "a", "a")\<close> returns 1, because equal units are answered before any lookup.
\<close>

theorem self_loop_lookup_is_identity:
  "factor_of loop_table ''a'' ''a'' = Some 2
   \<and> convert_on loop_table (PyInt 1) ''a'' ''a'' = Inr 1
   \<and> convert_on loop_table (PyInt 1) ''a'' ''a'' \<noteq> Inr 2"
  by (simp add: factor_of_def loop_table_def convert_on_def to_float_one
        del: to_float.simps)






section \<open>Termination, the visited set and the recursion limit\<close>

lemma calls_are_new_visits:
  "c \<notin> V \<Longrightarrow> distinct (find_calls t c g V)
     \<and> set (find_calls t c g V) = snd (find_conversion_path t c g V) - V"
  "distinct (try_calls t c g ns V)
     \<and> set (try_calls t c g ns V) = snd (try_intermediates t c g ns V) - V"
proof (induction t c g V and t c g ns V rule: find_calls_try_calls.induct)
  case (1 factors current_unit target_unit visited)
  show ?case
  proof (cases "factor_of factors current_unit target_unit")
    case None
    have sub: "insert current_unit visited \<subseteq> snd (try_intermediates factors current_unit
        target_unit (neighbours factors current_unit) (insert current_unit visited))"
      by (rule visited_grows(2))
    show ?thesis using "1.IH"[OF None] "1.prems" None sub by auto
  next
    case (Some f)
    then show ?thesis using "1.prems" by auto
  qed
next
  case (2 factors current_unit target_unit visited)
  then show ?case by simp
next
  case (3 factors current_unit target_unit intermediate_unit rest visited)
  show ?case
  proof (cases "intermediate_unit \<in> visited")
    case True
    then show ?thesis using "3.IH"(3) by simp
  next
    case False
    obtain p V' where r: "find_conversion_path factors intermediate_unit target_unit visited = (p, V')"
      by (cases "find_conversion_path factors intermediate_unit target_unit visited")
    have sub1: "visited \<subseteq> V'"
      using visited_grows(1)[of visited factors intermediate_unit target_unit] r by simp
    have ih1: "distinct (find_calls factors intermediate_unit target_unit visited)
       \<and> set (find_calls factors intermediate_unit target_unit visited) = V' - visited"
      using "3.IH"(1)[OF False r[symmetric] False] r by simp
    show ?thesis
    proof (cases "truthy p")
      case True
      then show ?thesis using False r ih1 by simp
    next
      case nt: False
      have sub2: "V' \<subseteq> snd (try_intermediates factors current_unit target_unit rest V')"
        by (rule visited_grows(2))
      have ih2: "distinct (try_calls factors current_unit target_unit rest V')
         \<and> set (try_calls factors current_unit target_unit rest V')
             = snd (try_intermediates factors current_unit target_unit rest V') - V'"
        using "3.IH"(2)[OF False r[symmetric] nt] .
      show ?thesis using False r nt ih1 ih2 sub1 sub2 by auto
    qed
  qed
qed

lemma visited_within_table:
  "snd (find_conversion_path t c g V) \<subseteq> insert c V \<union> all_units t"
  "snd (try_intermediates t c g ns V) \<subseteq> V \<union> set ns \<union> all_units t"
proof (induction t c g V and t c g ns V rule: find_conversion_path_try_intermediates.induct)
  case (1 factors current_unit target_unit visited)
  show ?case
  proof (cases "factor_of factors current_unit target_unit")
    case None
    then show ?thesis using "1.IH"[OF None] neighbours_all_units[of factors current_unit]
      by auto
  next
    case (Some f)
    then show ?thesis by auto
  qed
next
  case (2 factors current_unit target_unit visited)
  then show ?case by simp
next
  case (3 factors current_unit target_unit intermediate_unit rest visited)
  show ?case
  proof (cases "intermediate_unit \<in> visited")
    case True
    then show ?thesis using "3.IH"(3) by auto
  next
    case False
    obtain p V' where r: "find_conversion_path factors intermediate_unit target_unit visited = (p, V')"
      by (cases "find_conversion_path factors intermediate_unit target_unit visited")
    have ih1: "V' \<subseteq> insert intermediate_unit visited \<union> all_units factors"
      using "3.IH"(1)[OF False] r by simp
    show ?thesis
    proof (cases "truthy p")
      case True
      then show ?thesis using False r ih1 by auto
    next
      case nt: False
      have "snd (try_intermediates factors current_unit target_unit rest V')
              \<subseteq> V' \<union> set rest \<union> all_units factors"
        using "3.IH"(2)[OF False r[symmetric] nt] .
      then show ?thesis using False r nt ih1 by auto
    qed
  qed
qed

lemma enough_frames:
  "card (all_units t - insert c V) < d \<Longrightarrow>
     find_conversion_path_limited d t c g V = Inr (find_conversion_path t c g V)"
  "set ns \<subseteq> all_units t \<Longrightarrow> card (all_units t - V) \<le> d \<Longrightarrow>
     try_intermediates_limited d t c g ns V = Inr (try_intermediates t c g ns V)"
proof (induction d t c g V and d t c g ns V
       rule: find_conversion_path_limited_try_intermediates_limited.induct)
  case (1 factors current_unit target_unit visited)
  then show ?case by simp
next
  case (2 frames factors current_unit target_unit visited)
  show ?case
  proof (cases "factor_of factors current_unit target_unit")
    case None
    have "card (all_units factors - insert current_unit visited) \<le> frames"
      using "2.prems" by simp
    then show ?thesis
      using "2.IH"[OF None neighbours_all_units] None by simp
  next
    case (Some f)
    then show ?thesis by simp
  qed
next
  case (3 frames factors current_unit target_unit visited)
  then show ?case by simp
next
  case (4 frames factors current_unit target_unit intermediate_unit rest visited)
  have rest: "set rest \<subseteq> all_units factors" using "4.prems"(1) by simp
  show ?case
  proof (cases "intermediate_unit \<in> visited")
    case True
    then show ?thesis using "4.IH"(3)[OF _ rest "4.prems"(2)] by simp
  next
    case False
    have mem: "intermediate_unit \<in> all_units factors" using "4.prems"(1) by simp
    have "all_units factors - insert intermediate_unit visited \<subset> all_units factors - visited"
      using mem False by auto
    then have "card (all_units factors - insert intermediate_unit visited)
        < card (all_units factors - visited)"
      by (intro psubset_card_mono) (auto simp: finite_all_units)
    then have less: "card (all_units factors - insert intermediate_unit visited) < frames"
      using "4.prems"(2) by simp
    obtain p V' where r: "find_conversion_path factors intermediate_unit target_unit visited = (p, V')"
      by (cases "find_conversion_path factors intermediate_unit target_unit visited")
    have lim: "find_conversion_path_limited frames factors intermediate_unit target_unit visited
        = Inr (p, V')"
      using "4.IH"(1)[OF False less] r by simp
    show ?thesis
    proof (cases "truthy p")
      case True
      then show ?thesis using False r lim by simp
    next
      case nt: False
      have sub: "visited \<subseteq> V'"
        using visited_grows(1)[of visited factors intermediate_unit target_unit] r by simp
      then have "all_units factors - V' \<subseteq> all_units factors - visited" by auto
      then have "card (all_units factors - V') \<le> card (all_units factors - visited)"
        by (intro card_mono) (auto simp: finite_all_units)
      then have le: "card (all_units factors - V') \<le> frames" using "4.prems"(2) by simp
      have "try_intermediates_limited frames factors current_unit target_unit rest V'
          = Inr (try_intermediates factors current_unit target_unit rest V')"
        using "4.IH"(2)[OF False lim _ nt rest le] by simp
      then show ?thesis using False r lim nt by simp
    qed
  qed
qed

lemma convert_on_limited_enough:
  assumes "card (all_units t) < frames"
  shows "convert_on_limited frames t v a b = convert_on t v a b"
proof -
  have "card (all_units t - insert a {}) \<le> card (all_units t)"
    by (intro card_mono) (auto simp: finite_all_units)
  then have "card (all_units t - insert a {}) < frames" using assms by simp
  then have "find_conversion_path_limited frames t a b {} = Inr (find_conversion_path t a b {})"
    by (rule enough_frames(1))
  then show ?thesis
    by (simp add: convert_on_limited_def convert_on_def split: option.splits prod.splits)
qed

lemma to_float_outcomes: "(\<exists>x. to_float v = Inr x) \<or> to_float v = Inl OverflowError"
  by (cases v) (auto simp: float_of_int_def Let_def)

lemma convert_on_outcomes:
  "(\<exists>x. convert_on t v a b = Inr x) \<or> convert_on t v a b = Inl ZeroDivisionError
     \<or> convert_on t v a b = Inl OverflowError
     \<or> convert_on t v a b = Inl (ValueError (no_path_message a b))"
  using to_float_outcomes[of v]
  by (auto simp: convert_on_def split: option.splits prod.splits)

lemma unit_no_inj: "unit_no i = unit_no j \<Longrightarrow> i = j"
  unfolding unit_no_def by (metis length_replicate nat.inject)

lemma unit_no_not_g: "unit_no i \<noteq> ''g''"
  by (simp add: unit_no_def)

lemma chain_keys:
  "fst ` set (map (\<lambda>i. (unit_no i, [(unit_no (Suc i), 1::real)])) [0..<n]) = unit_no ` {0..<n}"
  by (simp add: image_image)

lemma chain_row:
  "i < n \<Longrightarrow>
     map_of (map (\<lambda>i. (unit_no i, [(unit_no (Suc i), 1::real)])) [0..<n]) (unit_no i)
       = Some [(unit_no (Suc i), 1)]"
proof (induction n)
  case 0
  then show ?case by simp
next
  case (Suc n)
  show ?case
  proof (cases "i < n")
    case True
    then show ?thesis using Suc.IH by (simp add: map_of_append map_add_def)
  next
    case False
    then have i: "i = n" using Suc.prems by simp
    have "unit_no n \<notin> unit_no ` {0..<n}" using unit_no_inj by fastforce
    then have "map_of (map (\<lambda>i. (unit_no i, [(unit_no (Suc i), 1::real)])) [0..<n]) (unit_no n)
        = None"
      using chain_keys[of n] by (simp add: map_of_eq_None_iff del: set_map)
    then show ?thesis unfolding i by (simp add: map_of_append map_add_def)
  qed
qed

lemma ring_row:
  "i < n \<Longrightarrow> map_of (ring_table n) (unit_no i) = Some [(unit_no (Suc i), 1)]"
  unfolding ring_table_def using chain_row[of i n] by (simp add: map_of_append map_add_def)

lemma ring_units: "all_units (ring_table n) \<subseteq> range unit_no"
  unfolding all_units_def ring_table_def by auto

lemma ring_no_g: "factor_of (ring_table n) x ''g'' = None"
proof (rule ccontr)
  assume "factor_of (ring_table n) x ''g'' \<noteq> None"
  then have "''g'' \<in> set (neighbours (ring_table n) x)"
    using edge_iff_neighbour[of "ring_table n" x "''g''"] by simp
  then have "''g'' \<in> range unit_no" using neighbours_all_units ring_units by blast
  then show False using unit_no_not_g by (metis rangeE)
qed

lemma ring_g_no_row: "map_of (ring_table n) ''g'' = None"
proof -
  have "fst ` set (ring_table n) \<subseteq> range unit_no"
    unfolding ring_table_def by auto
  then have "''g'' \<notin> fst ` set (ring_table n)" using unit_no_not_g by (metis rangeE subsetD)
  then show ?thesis by (simp add: map_of_eq_None_iff)
qed

lemma ring_descends:
  "i + d \<le> n \<Longrightarrow> (\<forall>j. i \<le> j \<longrightarrow> unit_no j \<notin> V) \<Longrightarrow>
     find_conversion_path_limited d (ring_table n) (unit_no i) ''g'' V = Inl RecursionError"
proof (induction d arbitrary: i V)
  case 0
  then show ?case by simp
next
  case (Suc d)
  have i: "i < n" using Suc.prems(1) by simp
  have nb: "neighbours (ring_table n) (unit_no i) = [unit_no (Suc i)]"
    using ring_row[OF i] by (simp add: neighbours_def)
  have fresh: "unit_no (Suc i) \<notin> insert (unit_no i) V"
    using Suc.prems(2) unit_no_inj[of "Suc i" i] by auto
  have "\<forall>j. Suc i \<le> j \<longrightarrow> unit_no j \<notin> insert (unit_no i) V"
    using Suc.prems(2) unit_no_inj by fastforce
  then have "find_conversion_path_limited d (ring_table n) (unit_no (Suc i)) ''g''
      (insert (unit_no i) V) = Inl RecursionError"
    using Suc.IH[of "Suc i" "insert (unit_no i) V"] Suc.prems(1) by simp
  then show ?case using nb fresh ring_no_g[of n "unit_no i"] by simp
qed

lemma ring_overflows:
  assumes "frames \<le> n"
  shows "convert_on_limited frames (ring_table n) v (unit_no 0) ''g'' = Inl RecursionError"
proof -
  have "find_conversion_path_limited frames (ring_table n) (unit_no 0) ''g'' {}
      = Inl RecursionError"
    using ring_descends[of 0 frames n "{}"] assms by simp
  moreover have "factor_of (ring_table n) ''g'' (unit_no 0) = None"
    by (simp add: factor_of_def ring_g_no_row)
  ultimately show ?thesis
    using unit_no_not_g[of 0] ring_no_g[of n "unit_no 0"]
    by (simp add: convert_on_limited_def)
qed

lemma ring_is_a_cycle: "(unit_no 0, unit_no 0) \<in> (edges (ring_table n))\<^sup>+"
proof -
  have step: "i < n \<Longrightarrow> (unit_no i, unit_no (Suc i)) \<in> edges (ring_table n)" for i
    using ring_row[of i n] by (simp add: edges_def factor_of_def)
  have reach: "i \<le> n \<Longrightarrow> (unit_no 0, unit_no i) \<in> (edges (ring_table n))\<^sup>*" for i
  proof (induction i)
    case 0
    then show ?case by simp
  next
    case (Suc i)
    then show ?case using step[of i] by (meson Suc_le_lessD Suc_leD rtrancl.rtrancl_into_rtrancl)
  qed
  have "unit_no n \<notin> unit_no ` {0..<n}" using unit_no_inj by fastforce
  then have "map_of (map (\<lambda>i. (unit_no i, [(unit_no (Suc i), 1::real)])) [0..<n]) (unit_no n)
      = None"
    using chain_keys[of n] by (simp add: map_of_eq_None_iff del: set_map)
  then have "map_of (ring_table n) (unit_no n) = Some [(unit_no 0, 1)]"
    unfolding ring_table_def by (simp add: map_of_append map_add_def)
  then have "(unit_no n, unit_no 0) \<in> edges (ring_table n)"
    by (simp add: edges_def factor_of_def)
  then show ?thesis using reach[of n] by (meson order_refl rtrancl_into_trancl1)
qed

lemma ring_g_unreachable: "(unit_no 0, ''g'') \<notin> (edges (ring_table n))\<^sup>*"
proof
  assume "(unit_no 0, ''g'') \<in> (edges (ring_table n))\<^sup>*"
  then have "(unit_no 0, ''g'') \<in> (edges (ring_table n))\<^sup>+"
    using unit_no_not_g[of 0] by (meson rtranclD)
  then obtain x where "(x, ''g'') \<in> edges (ring_table n)" by (meson tranclE)
  then show False using ring_no_g[of n x] by (simp add: edges_def)
qed

text \<open>
  C6, as the code has it. \<open>find_conversion_path\<close> is a total function: its termination proof
  covers every table, with or without self-loops and cycles. In a search started by
  \<^verbatim>\<open>convert\<close> no unit is entered twice, the units entered are exactly the visited set, and
  there are at most as many nested calls as the table has units, plus one for the start unit.
  When the interpreter allows that many nested calls, \<^verbatim>\<open>convert\<close> does not raise
  \<^verbatim>\<open>RecursionError\<close>: it ends with a number, with \<^verbatim>\<open>ZeroDivisionError\<close>, with \<^verbatim>\<open>OverflowError\<close> (of
  \<^verbatim>\<open>float(value)\<close>) or with the no-path error, and the search for a unit that cannot be reached,
  on a table with cycles or without, ends with the no-path error.
\<close>

theorem search_terminates_without_revisits:
  assumes "card (all_units t) < frames"
  shows "convert_on_limited frames t v a b = convert_on t v a b
   \<and> distinct (find_calls t a b {})
   \<and> length (find_calls t a b {}) \<le> Suc (card (all_units t))
   \<and> set (find_calls t a b {}) = snd (find_conversion_path t a b {})
   \<and> ((\<exists>x. convert_on_limited frames t v a b = Inr x)
        \<or> convert_on_limited frames t v a b = Inl ZeroDivisionError
        \<or> convert_on_limited frames t v a b = Inl OverflowError
        \<or> convert_on_limited frames t v a b = Inl (ValueError (no_path_message a b)))
   \<and> ((a, b) \<notin> (edges t)\<^sup>* \<and> factor_of t b a = None \<longrightarrow>
        convert_on_limited frames t v a b = Inl (ValueError (no_path_message a b)))"
proof -
  define cs where "cs = find_calls t a b {}"
  have d: "distinct cs"
    and s: "set cs = snd (find_conversion_path t a b {})"
    unfolding cs_def using calls_are_new_visits(1)[of a "{}" t b] by simp_all
  have "set cs \<subseteq> insert a (all_units t)"
    using visited_within_table(1)[of t a b "{}"] s by simp
  then have "card (set cs) \<le> card (insert a (all_units t))"
    by (intro card_mono) (simp_all add: finite_all_units)
  also have "\<dots> \<le> Suc (card (all_units t))"
    by (simp add: card_insert_if finite_all_units)
  finally have l: "length cs \<le> Suc (card (all_units t))"
    using d by (simp add: distinct_card)
  have eq: "convert_on_limited frames t v a b = convert_on t v a b"
    using assms by (rule convert_on_limited_enough)
  have u: "(a, b) \<notin> (edges t)\<^sup>* \<and> factor_of t b a = None \<longrightarrow>
        convert_on t v a b = Inl (ValueError (no_path_message a b))"
  proof
    assume h: "(a, b) \<notin> (edges t)\<^sup>* \<and> factor_of t b a = None"
    then have ne: "a \<noteq> b" by auto
    have nt: "(a, b) \<notin> (edges t)\<^sup>+" using h by (meson trancl_into_rtrancl)
    then have "(a, b) \<notin> edges t" by blast
    then have "factor_of t a b = None" by (simp add: edges_def)
    then show "convert_on t v a b = Inl (ValueError (no_path_message a b))"
      using convert_on_no_path_iff[of t v a b] ne nt h by simp
  qed
  show ?thesis
    using d l s u convert_on_outcomes[of t v a b] unfolding cs_def eq by blast
qed

theorem search_terminates_without_revisits_witness:
  "convert_on_limited 3 cycle_table (PyInt 1) ''a'' ''c''
     = Inl (ValueError (no_path_message ''a'' ''c''))
   \<and> distinct (find_calls cycle_table ''a'' ''c'' {})
   \<and> length (find_calls cycle_table ''a'' ''c'' {}) \<le> 3"
proof -
  have units: "all_units cycle_table = {''a'', ''b''}"
    by (auto simp: all_units_def cycle_table_def)
  have c: "card (all_units cycle_table) < 3" unfolding units by simp
  have closed: "\<forall>x\<in>{''a'', ''b''}. set (neighbours cycle_table x) \<subseteq> {''a'', ''b''}"
    by (simp add: neighbours_def cycle_table_def)
  have unreach: "(''a'', ''c'') \<notin> (edges cycle_table)\<^sup>*"
    using closed_set_reach[of "''a''" "''c''" cycle_table "{''a'', ''b''}"] closed by auto
  have rev: "factor_of cycle_table ''c'' ''a'' = None"
    by (simp add: factor_of_def cycle_table_def)
  have three: "Suc (card (all_units cycle_table)) = 3" unfolding units by simp
  note t = search_terminates_without_revisits [OF c, of "PyInt 1" "''a''" "''c''"]
  have e: "convert_on_limited 3 cycle_table (PyInt 1) ''a'' ''c''
      = Inl (ValueError (no_path_message ''a'' ''c''))"
    using t unreach rev by blast
  have d: "distinct (find_calls cycle_table ''a'' ''c'' {})" using t by blast
  have l: "length (find_calls cycle_table ''a'' ''c'' {}) \<le> 3"
    using t unfolding three by blast
  show ?thesis using e d l by blast
qed

text \<open>
  C6 as stated fails on a table whose cycle is longer than the recursion limit: on the cycle
  through 1001 units, the search for the unreachable unit \<open>g\<close> needs 1001 nested calls, and an
  interpreter that allows 1000 raises \<^verbatim>\<open>RecursionError\<close> instead of the no-path error.
\<close>

theorem deep_cycle_exceeds_recursion_limit:
  "(unit_no 0, unit_no 0) \<in> (edges (ring_table 1000))\<^sup>+
   \<and> (unit_no 0, ''g'') \<notin> (edges (ring_table 1000))\<^sup>*
   \<and> convert_on_limited 1000 (ring_table 1000) (PyInt 1) (unit_no 0) ''g''
       = Inl RecursionError
   \<and> convert_on_limited 1000 (ring_table 1000) (PyInt 1) (unit_no 0) ''g''
       \<noteq> Inl (ValueError (no_path_message (unit_no 0) ''g''))"
  using ring_is_a_cycle[of 1000] ring_g_unreachable[of 1000]
        ring_overflows[of 1000 1000 "PyInt 1"]
  by simp

end
